theory Spec2Isabelle
  imports Complex_Main "HOL-Library.AList"
begin

chapter \<open>The execution core of Quant-Engine: embedding and properties\<close>

text \<open>
  The C++ sources are embedded shallowly. Conventions used throughout:
  \<^item> \<open>double\<close> values (\<open>Price\<close>, \<open>Volume\<close>, balances, limits) are idealised as \<^typ>\<open>real\<close>:
    rounding is not modelled. Where the source divides by a value that can be zero,
    the IEEE result (an infinity or a NaN) and the outcome of the comparison made on it
    are written out explicitly (\<open>fpval\<close> below).
  \<^item> A class becomes a record of its data members. An identifier cannot end in an
    underscore, so a member such as \<open>buffer_\<close> is written with a prefix for its class
    instead (\<open>rb_buffer\<close>, \<open>ep_buffer\<close>; likewise \<open>rm_\<close>, \<open>or_\<close>, \<open>bs_\<close>, \<open>sa_\<close>). Member
    functions keep their names, take the object as first argument and return the
    updated object when they mutate it; where two classes have a member function of the
    same name, the class name is put in front.
  \<^item> A \<open>throw\<close> is a value \<open>Inl e\<close> of a sum type; a loop that can spin forever is a
    partial function into \<open>option\<close>, where \<open>None\<close> means the call never returns.
  \<^item> Mutexes and memory orders are not modelled: every member function is executed
    atomically, one call at a time.
\<close>

section \<open>Common types (\<open>common/types.hpp\<close>)\<close>

type_synonym OrderId = string
type_synonym Timestamp = nat
type_synonym Price = real
type_synonym Volume = real

datatype OrderType = MARKET | LIMIT | STOP | STOP_LIMIT

datatype OrderSide = BUY | SELL

datatype OrderStatus = PENDING | PARTIAL | FILLED | CANCELLED | REJECTED

datatype EventType = MARKET_DATA | ORDER_UPDATE | TRADE_UPDATE | STRATEGY_SIGNAL | SYSTEM_EVENT

datatype StrategyStatus = INITIALIZED | RUNNING | STOPPED | ERROR

record MarketData =
  symbol :: string
  timestamp :: Timestamp
  lastPrice :: Price
  bestBid :: Price
  bestAsk :: Price
  bidVolume :: Volume
  askVolume :: Volume
  bids :: "(Price \<times> Volume) list"
  asks :: "(Price \<times> Volume) list"

record Order =
  symbol :: string
  type :: OrderType
  side :: OrderSide
  price :: Price
  volume :: Volume
  clientOrderId :: string

record OrderUpdate =
  orderId :: OrderId
  status :: OrderStatus
  filledPrice :: Price
  filledVolume :: Volume
  timestamp :: Timestamp
  message :: string

record TradeUpdate =
  orderId :: OrderId
  symbol :: string
  price :: Price
  volume :: Volume
  side :: OrderSide
  timestamp :: Timestamp

record Position =
  symbol :: string
  volume :: Volume
  averagePrice :: Price
  unrealizedPnl :: Price
  realizedPnl :: Price

record Event =
  type :: EventType
  timestamp :: Timestamp
  source :: string
  data :: string

text \<open>
  The result of a \<open>double\<close> division whose divisor may be zero, and the comparisons the
  sources make on it: a quotient by zero is an infinity of the dividend's sign, or a NaN
  when the dividend is zero too, and every ordered comparison with a NaN is false.
  (The reals have one zero; a negative zero divisor, which flips the sign of the
  infinity, is not modelled.)
\<close>

datatype fpval = Fin real | PosInf | NegInf | NaN

definition fdiv :: "real \<Rightarrow> real \<Rightarrow> fpval" where
  "fdiv a b =
     (if b \<noteq> 0 then Fin (a / b) else if a > 0 then PosInf else if a < 0 then NegInf else NaN)"

fun fp_gt :: "fpval \<Rightarrow> real \<Rightarrow> bool" where
  "fp_gt (Fin x) y = (x > y)"
| "fp_gt PosInf y = True"
| "fp_gt NegInf y = False"
| "fp_gt NaN y = False"





section \<open>The ring buffer (\<open>common/ring_buffer.hpp\<close>)\<close>

text \<open>
  The indices are \<open>size_t\<close> values below \<open>size_\<close>, so \<open>currentWrite + 1\<close> cannot wrap
  around and natural numbers model them exactly. The constructor asserts
  \<open>size > 0\<close>; \<open>make_unique<T[]>(size)\<close> value-initialises the slots, here to \<open>dflt\<close>.
\<close>

record 'a RingBuffer =
  rb_size :: nat
  rb_buffer :: "'a list"
  rb_readIndex :: nat
  rb_writeIndex :: nat

definition RingBuffer_new :: "nat \<Rightarrow> 'a \<Rightarrow> 'a RingBuffer" where
  "RingBuffer_new n dflt =
     \<lparr>rb_size = n, rb_buffer = replicate n dflt, rb_readIndex = 0, rb_writeIndex = 0\<rparr>"

definition push :: "'a RingBuffer \<Rightarrow> 'a \<Rightarrow> bool \<times> 'a RingBuffer" where
  "push rb item =
     (let currentWrite = rb_writeIndex rb;
          nextWrite = (currentWrite + 1) mod rb_size rb
      in if nextWrite = rb_readIndex rb then (False, rb)
         else (True, rb\<lparr>rb_buffer := (rb_buffer rb)[currentWrite := item],
                         rb_writeIndex := nextWrite\<rparr>))"

text \<open>\<open>pop(T& item)\<close> returns \<open>false\<close> (here \<open>None\<close>) or stores the slot in \<open>item\<close>.\<close>

definition pop :: "'a RingBuffer \<Rightarrow> 'a option \<times> 'a RingBuffer" where
  "pop rb =
     (let currentRead = rb_readIndex rb
      in if currentRead = rb_writeIndex rb then (None, rb)
         else (Some (rb_buffer rb ! currentRead),
               rb\<lparr>rb_readIndex := (currentRead + 1) mod rb_size rb\<rparr>))"

definition isEmpty :: "'a RingBuffer \<Rightarrow> bool" where
  "isEmpty rb = (rb_readIndex rb = rb_writeIndex rb)"

definition isFull :: "'a RingBuffer \<Rightarrow> bool" where
  "isFull rb = ((rb_writeIndex rb + 1) mod rb_size rb = rb_readIndex rb)"

definition size_rb :: "'a RingBuffer \<Rightarrow> nat" where
  "size_rb rb =
     (let read = rb_readIndex rb; write = rb_writeIndex rb
      in if write \<ge> read then write - read else rb_size rb - (read - write))"

definition capacity :: "'a RingBuffer \<Rightarrow> nat" where
  "capacity rb = rb_size rb - 1"

text \<open>The calls a client can make on a ring buffer, and what each returns.\<close>

datatype 'a rb_call = Push 'a | Pop | IsEmpty | IsFull | Size

datatype 'a rb_ret = PushRet bool | PopRet "'a option" | IsEmptyRet bool | IsFullRet bool
  | SizeRet nat

fun rb_step :: "'a RingBuffer \<Rightarrow> 'a rb_call \<Rightarrow> 'a rb_ret \<times> 'a RingBuffer" where
  "rb_step rb (Push x) = (let (ok, rb') = push rb x in (PushRet ok, rb'))"
| "rb_step rb Pop = (let (r, rb') = pop rb in (PopRet r, rb'))"
| "rb_step rb IsEmpty = (IsEmptyRet (isEmpty rb), rb)"
| "rb_step rb IsFull = (IsFullRet (isFull rb), rb)"
| "rb_step rb Size = (SizeRet (size_rb rb), rb)"

fun rb_run :: "'a RingBuffer \<Rightarrow> 'a rb_call list \<Rightarrow> 'a rb_ret list \<times> 'a RingBuffer" where
  "rb_run rb [] = ([], rb)"
| "rb_run rb (c # cs) =
     (let (r, rb') = rb_step rb c; (rs, rb'') = rb_run rb' cs in (r # rs, rb''))"

subsection \<open>The bounded FIFO queue the ring buffer is meant to implement\<close>

text \<open>
  The specification side of the refinement: a list of at most \<open>cap\<close> items, appended to
  at the back and taken from the front.
\<close>

definition fifo_push :: "nat \<Rightarrow> 'a list \<Rightarrow> 'a \<Rightarrow> bool \<times> 'a list" where
  "fifo_push cap q x = (if length q < cap then (True, q @ [x]) else (False, q))"

definition fifo_pop :: "'a list \<Rightarrow> 'a option \<times> 'a list" where
  "fifo_pop q = (case q of [] \<Rightarrow> (None, []) | y # ys \<Rightarrow> (Some y, ys))"

fun fifo_step :: "nat \<Rightarrow> 'a list \<Rightarrow> 'a rb_call \<Rightarrow> 'a rb_ret \<times> 'a list" where
  "fifo_step cap q (Push x) = (let (ok, q') = fifo_push cap q x in (PushRet ok, q'))"
| "fifo_step cap q Pop = (let (r, q') = fifo_pop q in (PopRet r, q'))"
| "fifo_step cap q IsEmpty = (IsEmptyRet (q = []), q)"
| "fifo_step cap q IsFull = (IsFullRet (length q = cap), q)"
| "fifo_step cap q Size = (SizeRet (length q), q)"

fun fifo_run :: "nat \<Rightarrow> 'a list \<Rightarrow> 'a rb_call list \<Rightarrow> 'a rb_ret list \<times> 'a list" where
  "fifo_run cap q [] = ([], q)"
| "fifo_run cap q (c # cs) =
     (let (r, q') = fifo_step cap q c; (rs, q'') = fifo_run cap q' cs in (r # rs, q''))"

text \<open>The items whose \<open>push\<close> returned \<open>true\<close>, and the items \<open>pop\<close> handed out, in call order.\<close>

fun accepted :: "'a rb_call list \<Rightarrow> 'a rb_ret list \<Rightarrow> 'a list" where
  "accepted (Push x # cs) (PushRet True # rs) = x # accepted cs rs"
| "accepted (c # cs) (r # rs) = accepted cs rs"
| "accepted _ _ = []"

fun delivered :: "'a rb_ret list \<Rightarrow> 'a list" where
  "delivered (PopRet (Some y) # rs) = y # delivered rs"
| "delivered (r # rs) = delivered rs"
| "delivered [] = []"

text \<open>The representation invariant and the queue a ring buffer represents.\<close>

definition rb_inv :: "'a RingBuffer \<Rightarrow> bool" where
  "rb_inv rb = (0 < rb_size rb \<and> length (rb_buffer rb) = rb_size rb \<and>
                rb_readIndex rb < rb_size rb \<and> rb_writeIndex rb < rb_size rb)"

definition rb_contents :: "'a RingBuffer \<Rightarrow> 'a list" where
  "rb_contents rb =
     map (\<lambda>i. rb_buffer rb ! ((rb_readIndex rb + i) mod rb_size rb)) [0..<size_rb rb]"

section \<open>The event dispatcher (\<open>execution/event_processor_impl.hpp\<close>)\<close>

text \<open>
  An \<open>EventHandler\<close> is a \<open>std::function\<close>; the type parameter \<open>'h\<close> stands for it.
  \<open>handlers_\<close> is a \<open>std::map\<close> from the event type to the vector of its handlers, in
  registration order. The consumer thread is not part of the object's state: what it
  does to the buffer while a producer yields is the parameter \<open>yield\<close> of \<open>publish\<close>.
\<close>

record 'h EventProcessorImpl =
  ep_buffer :: "Event RingBuffer"
  ep_running :: bool
  ep_handlers :: "EventType \<rightharpoonup> 'h list"

text \<open>A value-initialised \<open>Event\<close>, the content of a fresh slot.\<close>

definition Event_default :: Event where
  "Event_default = \<lparr>Event.type = MARKET_DATA, timestamp = 0, source = [], data = []\<rparr>"

definition EventProcessorImpl_new :: "nat \<Rightarrow> 'h EventProcessorImpl" where
  "EventProcessorImpl_new bufferSize =
     \<lparr>ep_buffer = RingBuffer_new bufferSize Event_default, ep_running = False,
      ep_handlers = Map.empty\<rparr>"

definition start :: "'h EventProcessorImpl \<Rightarrow> 'h EventProcessorImpl" where
  "start d = (if ep_running d then d else d\<lparr>ep_running := True\<rparr>)"

text \<open>\<open>stop()\<close> clears the flag, notifies and joins the consumer thread before it returns.\<close>

definition stop :: "'h EventProcessorImpl \<Rightarrow> 'h EventProcessorImpl" where
  "stop d = (if \<not> ep_running d then d else d\<lparr>ep_running := False\<rparr>)"

text \<open>
  The loop \<open>while (buffer_.isFull()) std::this_thread::yield();\<close>. Each \<open>yield\<close> lets the
  other threads run; \<open>yield b\<close> is the buffer they leave behind. The result \<open>None\<close> means
  that the loop never ends.
\<close>

partial_function (option) waitWhileFull ::
  "('a RingBuffer \<Rightarrow> 'a RingBuffer) \<Rightarrow> 'a RingBuffer \<Rightarrow> 'a RingBuffer option" where
  "waitWhileFull yield b = (if isFull b then waitWhileFull yield (yield b) else Some b)"

text \<open>
  \<open>publish\<close> returns \<open>false\<close> when the processor is not running (after logging a warning)
  or when \<open>push\<close> fails after the wait (after logging an error), and \<open>true\<close> otherwise.
\<close>

definition publish ::
  "(Event RingBuffer \<Rightarrow> Event RingBuffer) \<Rightarrow> 'h EventProcessorImpl \<Rightarrow> Event \<Rightarrow>
   (bool \<times> 'h EventProcessorImpl) option" where
  "publish yield d event =
     (if \<not> ep_running d then Some (False, d)
      else case waitWhileFull yield (ep_buffer d) of
             None \<Rightarrow> None
           | Some b \<Rightarrow>
               (let (ok, b') = push b event
                in if \<not> ok then Some (False, d\<lparr>ep_buffer := b'\<rparr>)
                   else Some (True, d\<lparr>ep_buffer := b'\<rparr>)))"

text \<open>A consumer that is paused leaves the buffer alone; one that runs takes an event out.\<close>

definition consumer_paused :: "'a RingBuffer \<Rightarrow> 'a RingBuffer" where
  "consumer_paused b = b"

definition consumer_pops :: "'a RingBuffer \<Rightarrow> 'a RingBuffer" where
  "consumer_pops b = snd (pop b)"

text \<open>Publishing a list of events one after the other, collecting the return values.\<close>

fun publish_all ::
  "(Event RingBuffer \<Rightarrow> Event RingBuffer) \<Rightarrow> 'h EventProcessorImpl \<Rightarrow> Event list \<Rightarrow>
   (bool list \<times> 'h EventProcessorImpl) option" where
  "publish_all yield d [] = Some ([], d)"
| "publish_all yield d (e # es) =
     (case publish yield d e of
        None \<Rightarrow> None
      | Some (r, d') \<Rightarrow>
          (case publish_all yield d' es of
             None \<Rightarrow> None
           | Some (rs, d'') \<Rightarrow> Some (r # rs, d'')))"

definition subscribe :: "'h EventProcessorImpl \<Rightarrow> EventType \<Rightarrow> 'h \<Rightarrow> 'h EventProcessorImpl" where
  "subscribe d etype handler =
     d\<lparr>ep_handlers := (ep_handlers d)
          (etype \<mapsto> (case ep_handlers d etype of None \<Rightarrow> [] | Some hs \<Rightarrow> hs) @ [handler])\<rparr>"

text \<open>\<open>std::remove_if\<close> followed by \<open>erase\<close>: the elements satisfying the predicate go.\<close>

definition remove_if :: "('a \<Rightarrow> bool) \<Rightarrow> 'a list \<Rightarrow> 'a list" where
  "remove_if p xs = filter (\<lambda>x. \<not> p x) xs"

text \<open>The predicate handed to \<open>remove_if\<close> ignores the handler and the id: \<open>return true\<close>.\<close>

definition unsubscribe ::
  "'h EventProcessorImpl \<Rightarrow> EventType \<Rightarrow> string \<Rightarrow> 'h EventProcessorImpl" where
  "unsubscribe d etype handlerId =
     (case ep_handlers d etype of
        None \<Rightarrow> d
      | Some hs \<Rightarrow> d\<lparr>ep_handlers := (ep_handlers d)(etype \<mapsto> remove_if (\<lambda>h. True) hs)\<rparr>)"

text \<open>
  \<open>processEvent\<close> calls the handlers registered for the event's type in order; the
  result lists the calls made. One turn of the loop in \<open>processEvents\<close> (when the
  processor is running and the wait on the condition variable is over) pops an event
  and processes it.
\<close>

definition processEvent :: "'h EventProcessorImpl \<Rightarrow> Event \<Rightarrow> ('h \<times> Event) list" where
  "processEvent d event =
     (case ep_handlers d (Event.type event) of
        None \<Rightarrow> []
      | Some hs \<Rightarrow> map (\<lambda>handler. (handler, event)) hs)"

definition processEvents_turn ::
  "'h EventProcessorImpl \<Rightarrow> (Event \<times> ('h \<times> Event) list) option \<times> 'h EventProcessorImpl" where
  "processEvents_turn d =
     (case pop (ep_buffer d) of
        (None, b') \<Rightarrow> (None, d)
      | (Some event, b') \<Rightarrow> (Some (event, processEvent d event), d\<lparr>ep_buffer := b'\<rparr>))"

text \<open>
  \<open>k\<close> turns of the loop: the events handed to \<open>processEvent\<close>, the handler calls made
  for them, both in order, and the processor afterwards.
\<close>

fun processEvents_turns ::
  "nat \<Rightarrow> 'h EventProcessorImpl \<Rightarrow> Event list \<times> ('h \<times> Event) list \<times> 'h EventProcessorImpl" where
  "processEvents_turns 0 d = ([], [], d)"
| "processEvents_turns (Suc k) d =
     (case processEvents_turn d of
        (None, d') \<Rightarrow> processEvents_turns k d'
      | (Some (event, calls), d') \<Rightarrow>
          (let (es, cs, d'') = processEvents_turns k d' in (event # es, calls @ cs, d'')))"

text \<open>An event stamped \<open>t\<close>; the scenarios below tell their events apart by the stamp.\<close>

definition tick :: "nat \<Rightarrow> Event" where
  "tick t = Event_default\<lparr>Event.timestamp := t\<rparr>"

section \<open>The risk manager (\<open>risk/risk_manager.hpp\<close>)\<close>

text \<open>
  \<open>positions_\<close> and \<open>averagePrices_\<close> are \<open>std::map\<close>s that \<open>calculateLeverage\<close> walks through;
  they are association lists with one entry per key, read with \<open>map_of\<close> and written
  with \<open>AList.update\<close>. \<open>symbolLimits\<close> is only looked up and is a map.
\<close>

record RiskLimits =
  maxOrderSize :: real
  maxPositionSize :: real
  maxLeverage :: real
  maxDrawdown :: real
  maxDailyLoss :: real
  symbolLimits :: "string \<rightharpoonup> real"

record RiskManager =
  rm_enabled :: bool
  rm_limits :: RiskLimits
  rm_positions :: "(string \<times> real) list"
  rm_averagePrices :: "(string \<times> real) list"
  rm_currentBalance :: real
  rm_peakBalance :: real
  rm_dailyStartBalance :: real
  rm_dailyLow :: real

text \<open>The warning a failed check logs before \<open>checkOrderRisk\<close> returns \<open>false\<close>.\<close>

datatype RiskWarning =
    OrderSizeExceedsLimit
  | OrderSizeExceedsSymbolLimit
  | PositionSizeWouldExceedLimit
  | LeverageWouldExceedLimit
  | DrawdownLimitExceeded
  | DailyLossLimitExceeded

definition calculateNewPosition :: "RiskManager \<Rightarrow> Order \<Rightarrow> real" where
  "calculateNewPosition rm ord =
     (let currentPosition =
            (case map_of (rm_positions rm) (Order.symbol ord) of Some v \<Rightarrow> v | None \<Rightarrow> 0)
      in if Order.side ord = BUY then currentPosition + Order.volume ord
         else currentPosition - Order.volume ord)"

definition calculateLeverage :: "RiskManager \<Rightarrow> Order \<Rightarrow> fpval" where
  "calculateLeverage rm ord =
     (let totalPositionValue =
            foldl (\<lambda>total (symb, vol).
                     case map_of (rm_averagePrices rm) symb of
                       Some px \<Rightarrow> total + \<bar>vol * px\<bar>
                     | None \<Rightarrow> total)
                  0 (rm_positions rm);
          totalPositionValue' = totalPositionValue + Order.volume ord * Order.price ord
      in fdiv totalPositionValue' (rm_currentBalance rm))"

definition calculateDrawdown :: "RiskManager \<Rightarrow> real" where
  "calculateDrawdown rm =
     (if rm_peakBalance rm \<le> 0 then 0
      else (rm_peakBalance rm - rm_currentBalance rm) / rm_peakBalance rm)"

definition calculateDailyLoss :: "RiskManager \<Rightarrow> real" where
  "calculateDailyLoss rm = rm_dailyStartBalance rm - rm_currentBalance rm"

text \<open>The return value of \<open>checkOrderRisk\<close>, paired with the warning it logged, if any.\<close>

definition checkOrderRisk :: "RiskManager \<Rightarrow> Order \<Rightarrow> bool \<times> RiskWarning option" where
  "checkOrderRisk rm ord =
     (if \<not> rm_enabled rm then (True, None)
      else if Order.volume ord * Order.price ord > maxOrderSize (rm_limits rm)
        then (False, Some OrderSizeExceedsLimit)
      else if (case symbolLimits (rm_limits rm) (Order.symbol ord) of
                 None \<Rightarrow> False
               | Some symbolLimit \<Rightarrow> Order.volume ord > symbolLimit)
        then (False, Some OrderSizeExceedsSymbolLimit)
      else if \<bar>calculateNewPosition rm ord\<bar> > maxPositionSize (rm_limits rm)
        then (False, Some PositionSizeWouldExceedLimit)
      else if fp_gt (calculateLeverage rm ord) (maxLeverage (rm_limits rm))
        then (False, Some LeverageWouldExceedLimit)
      else if calculateDrawdown rm > maxDrawdown (rm_limits rm)
        then (False, Some DrawdownLimitExceeded)
      else if calculateDailyLoss rm > maxDailyLoss (rm_limits rm)
        then (False, Some DailyLossLimitExceeded)
      else (True, None))"

definition RiskManager_updatePosition :: "RiskManager \<Rightarrow> string \<Rightarrow> real \<Rightarrow> real \<Rightarrow> RiskManager" where
  "RiskManager_updatePosition rm symb vol px =
     rm\<lparr>rm_positions := AList.update symb vol (rm_positions rm),
        rm_averagePrices := AList.update symb px (rm_averagePrices rm)\<rparr>"

definition updateBalance :: "RiskManager \<Rightarrow> real \<Rightarrow> RiskManager" where
  "updateBalance rm balance =
     (let rm' = rm\<lparr>rm_currentBalance := balance\<rparr>
      in if balance > rm_peakBalance rm' then rm'\<lparr>rm_peakBalance := balance\<rparr> else rm')"

definition resetDailyMetrics :: "RiskManager \<Rightarrow> RiskManager" where
  "resetDailyMetrics rm =
     rm\<lparr>rm_dailyStartBalance := rm_currentBalance rm, rm_dailyLow := rm_currentBalance rm\<rparr>"

definition enable :: "RiskManager \<Rightarrow> RiskManager" where
  "enable rm = rm\<lparr>rm_enabled := True\<rparr>"

definition disable :: "RiskManager \<Rightarrow> RiskManager" where
  "disable rm = rm\<lparr>rm_enabled := False\<rparr>"

definition setLimits :: "RiskManager \<Rightarrow> RiskLimits \<Rightarrow> RiskManager" where
  "setLimits rm limits = rm\<lparr>rm_limits := limits\<rparr>"

text \<open>
  The constructor: \<open>loadConfig\<close> with the defaults of an empty configuration, the
  balances at their member initialisers.
\<close>

definition RiskManager_new :: RiskManager where
  "RiskManager_new =
     \<lparr>rm_enabled = True,
      rm_limits = \<lparr>maxOrderSize = 100000, maxPositionSize = 1000000, maxLeverage = 3,
                   maxDrawdown = 1 / 10, maxDailyLoss = 10000, symbolLimits = Map.empty\<rparr>,
      rm_positions = [], rm_averagePrices = [],
      rm_currentBalance = 0, rm_peakBalance = 0, rm_dailyStartBalance = 0, rm_dailyLow = 0\<rparr>"

subsection \<open>The admission checks as a list\<close>

text \<open>
  The six checks in the order of the specification's list, each with the warning that
  names it and whether it fails: the order notional \<open>|volume \<cdot> price|\<close> against the order
  limit, the per-symbol volume cap, the projected position, the projected leverage, the
  drawdown and the daily loss. \<open>first_failure\<close> is the first check of a list that fails.
\<close>

definition admission_checks :: "RiskManager \<Rightarrow> Order \<Rightarrow> (RiskWarning \<times> bool) list" where
  "admission_checks rm ord =
     [(OrderSizeExceedsLimit, \<bar>Order.volume ord * Order.price ord\<bar> > maxOrderSize (rm_limits rm)),
      (OrderSizeExceedsSymbolLimit,
         (case symbolLimits (rm_limits rm) (Order.symbol ord) of
            None \<Rightarrow> False | Some cap \<Rightarrow> Order.volume ord > cap)),
      (PositionSizeWouldExceedLimit,
         \<bar>calculateNewPosition rm ord\<bar> > maxPositionSize (rm_limits rm)),
      (LeverageWouldExceedLimit, fp_gt (calculateLeverage rm ord) (maxLeverage (rm_limits rm))),
      (DrawdownLimitExceeded, calculateDrawdown rm > maxDrawdown (rm_limits rm)),
      (DailyLossLimitExceeded, calculateDailyLoss rm > maxDailyLoss (rm_limits rm))]"

definition first_failure :: "(RiskWarning \<times> bool) list \<Rightarrow> RiskWarning option" where
  "first_failure checks = map_option fst (find snd checks)"

section \<open>The execution engine's trade handler (\<open>execution/execution_engine.hpp\<close>)\<close>

text \<open>
  \<open>parseTradeUpdate\<close> is declared in the class and defined nowhere in the sources; it is a
  parameter, returning the update or the message of the exception it throws. The
  handler catches the exception and logs it.
\<close>

definition handleTradeUpdateEvent ::
  "(string \<Rightarrow> string + TradeUpdate) \<Rightarrow> RiskManager \<Rightarrow> Event \<Rightarrow> RiskManager" where
  "handleTradeUpdateEvent parseTradeUpdate rm event =
     (case parseTradeUpdate (Event.data event) of
        Inl what \<Rightarrow> rm
      | Inr update \<Rightarrow>
          RiskManager_updatePosition rm (TradeUpdate.symbol update) (TradeUpdate.volume update)
            (TradeUpdate.price update))"

text \<open>The trade updates a list of events parses to, in order.\<close>

fun parsed_updates :: "(string \<Rightarrow> string + TradeUpdate) \<Rightarrow> Event list \<Rightarrow> TradeUpdate list" where
  "parsed_updates parseTradeUpdate [] = []"
| "parsed_updates parseTradeUpdate (event # events) =
     (case parseTradeUpdate (Event.data event) of
        Inl what \<Rightarrow> parsed_updates parseTradeUpdate events
      | Inr update \<Rightarrow> update # parsed_updates parseTradeUpdate events)"

text \<open>
  The risk state of the specification's admission scenarios (order limit 1,000,000, no
  position, balance and peak 100,000), with a position limit of 1,000 and a volume cap
  of 5 on \<open>ETH\<close>; and a limit order.
\<close>

definition scenario_risk :: RiskManager where
  "scenario_risk =
     \<lparr>rm_enabled = True,
      rm_limits = \<lparr>maxOrderSize = 1000000, maxPositionSize = 1000, maxLeverage = 3,
                   maxDrawdown = 1 / 10, maxDailyLoss = 10000,
                   symbolLimits = [''ETH'' \<mapsto> 5]\<rparr>,
      rm_positions = [], rm_averagePrices = [],
      rm_currentBalance = 100000, rm_peakBalance = 100000, rm_dailyStartBalance = 100000,
      rm_dailyLow = 100000\<rparr>"

definition limit_order :: "string \<Rightarrow> OrderSide \<Rightarrow> Price \<Rightarrow> Volume \<Rightarrow> Order" where
  "limit_order symb sd px vol =
     \<lparr>Order.symbol = symb, type = LIMIT, side = sd, price = px, volume = vol,
      clientOrderId = []\<rparr>"

section \<open>The order router (\<open>execution/order_router.hpp\<close>)\<close>

text \<open>
  Of a venue adapter (\<open>exchange::ExchangeInterface\<close>) the router's \<open>submitOrder\<close> uses one
  member, \<open>submitOrder\<close>, which returns an order id or throws; the exception is the left
  summand. \<open>exchanges_\<close> maps a name to a shared pointer, which may be null (\<open>None\<close>).
\<close>

record ExchangeInterface =
  ex_submitOrder :: "Order \<Rightarrow> string + OrderId"

record OrderRouter =
  or_riskManager :: RiskManager
  or_exchanges :: "string \<rightharpoonup> ExchangeInterface option"
  or_orderBook :: "OrderId \<rightharpoonup> Order"
  or_activeOrdersByExchange :: "string \<rightharpoonup> OrderId set"

text \<open>
  What \<open>submitOrder\<close> throws: the two \<open>std::runtime_error\<close>s it raises itself, or the
  exception of the adapter, which it logs and rethrows.
\<close>

datatype SubmitError =
    ExchangeNotFound string
  | RejectedByRiskManager
  | AdapterException string

definition registerExchange :: "OrderRouter \<Rightarrow> string \<Rightarrow> ExchangeInterface option \<Rightarrow> OrderRouter" where
  "registerExchange r name exchange = r\<lparr>or_exchanges := (or_exchanges r)(name \<mapsto> exchange)\<rparr>"

definition getExchange :: "OrderRouter \<Rightarrow> string \<Rightarrow> ExchangeInterface option" where
  "getExchange r name = (case or_exchanges r name of None \<Rightarrow> None | Some exchange \<Rightarrow> exchange)"

definition recordOrder :: "OrderRouter \<Rightarrow> OrderId \<Rightarrow> Order \<Rightarrow> string \<Rightarrow> OrderRouter" where
  "recordOrder r oid ord exchangeName =
     r\<lparr>or_orderBook := (or_orderBook r)(oid \<mapsto> ord),
       or_activeOrdersByExchange := (or_activeOrdersByExchange r)
         (exchangeName \<mapsto>
            insert oid (case or_activeOrdersByExchange r exchangeName of
                          None \<Rightarrow> {} | Some orders \<Rightarrow> orders))\<rparr>"

text \<open>
  \<open>submitOrder\<close> returns the order id or the exception, the router afterwards, and the
  orders it handed to the adapter's \<open>submitOrder\<close> on the way.
\<close>

definition submitOrder ::
  "OrderRouter \<Rightarrow> Order \<Rightarrow> string \<Rightarrow> (SubmitError + OrderId) \<times> OrderRouter \<times> Order list" where
  "submitOrder r ord exchangeName =
     (case getExchange r exchangeName of
        None \<Rightarrow> (Inl (ExchangeNotFound exchangeName), r, [])
      | Some exchange \<Rightarrow>
          if \<not> fst (checkOrderRisk (or_riskManager r) ord)
          then (Inl RejectedByRiskManager, r, [])
          else (case ex_submitOrder exchange ord of
                  Inl what \<Rightarrow> (Inl (AdapterException what), r, [ord])
                | Inr oid \<Rightarrow> (Inr oid, recordOrder r oid ord exchangeName, [ord])))"

definition OrderRouter_new :: "RiskManager \<Rightarrow> OrderRouter" where
  "OrderRouter_new riskManager =
     \<lparr>or_riskManager = riskManager, or_exchanges = Map.empty, or_orderBook = Map.empty,
      or_activeOrdersByExchange = Map.empty\<rparr>"

text \<open>
  Two adapters for the scenarios, one that accepts every order under a fixed id and one
  whose \<open>submitOrder\<close> always throws; and a router over \<open>scenario_risk\<close> that knows the
  venue \<open>binance\<close> (accepting) and the venue \<open>offline\<close> (throwing).
\<close>

definition accepting_exchange :: "OrderId \<Rightarrow> ExchangeInterface" where
  "accepting_exchange oid = \<lparr>ex_submitOrder = (\<lambda>ord. Inr oid)\<rparr>"

definition failing_exchange :: "string \<Rightarrow> ExchangeInterface" where
  "failing_exchange what = \<lparr>ex_submitOrder = (\<lambda>ord. Inl what)\<rparr>"

definition scenario_router :: OrderRouter where
  "scenario_router =
     registerExchange
       (registerExchange (OrderRouter_new scenario_risk) ''binance''
          (Some (accepting_exchange ''1001'')))
       ''offline'' (Some (failing_exchange ''timeout''))"

section \<open>The strategy base class (\<open>algorithm/base_strategy.hpp\<close>)\<close>

text \<open>
  The hooks \<open>processMarketData\<close>, \<open>processOrderUpdate\<close> and \<open>processTradeUpdate\<close> are pure
  virtual. The state of the derived class has type \<open>'d\<close>; a hook maps it to the state it
  leaves behind, paired with the message of the \<open>std::exception\<close> it threw, if any. The
  base class keeps \<open>status_\<close> and \<open>positions_\<close> private, so a hook cannot change them.
\<close>

record 'd StrategyHooks =
  processMarketData :: "'d \<Rightarrow> MarketData \<Rightarrow> 'd \<times> string option"
  processOrderUpdate :: "'d \<Rightarrow> OrderUpdate \<Rightarrow> 'd \<times> string option"
  processTradeUpdate :: "'d \<Rightarrow> TradeUpdate \<Rightarrow> 'd \<times> string option"

record 'd BaseStrategy =
  bs_name :: string
  bs_status :: StrategyStatus
  bs_positions :: "string \<rightharpoonup> Position"
  bs_derived :: 'd

text \<open>The entry \<open>positions_[symbol]\<close> creates when the symbol is new: a value-initialised one.\<close>

definition Position_default :: Position where
  "Position_default =
     \<lparr>Position.symbol = [], volume = 0, averagePrice = 0, unrealizedPnl = 0, realizedPnl = 0\<rparr>"

definition BaseStrategy_updatePosition :: "'d BaseStrategy \<Rightarrow> TradeUpdate \<Rightarrow> 'd BaseStrategy" where
  "BaseStrategy_updatePosition s update =
     (let position =
            (case bs_positions s (TradeUpdate.symbol update) of
               None \<Rightarrow> Position_default | Some pos \<Rightarrow> pos);
          position = position\<lparr>Position.symbol := TradeUpdate.symbol update\<rparr>;
          position =
            (if TradeUpdate.side update = BUY
             then position\<lparr>Position.volume := Position.volume position + TradeUpdate.volume update\<rparr>
             else position\<lparr>Position.volume := Position.volume position - TradeUpdate.volume update\<rparr>);
          position =
            (if Position.volume position \<noteq> 0
             then position\<lparr>averagePrice :=
                    (averagePrice position * (Position.volume position - TradeUpdate.volume update) +
                     TradeUpdate.price update * TradeUpdate.volume update) / Position.volume position\<rparr>
             else position\<lparr>averagePrice := 0\<rparr>)
      in s\<lparr>bs_positions := (bs_positions s)(TradeUpdate.symbol update \<mapsto> position)\<rparr>)"

text \<open>
  The three callbacks. An exception of a hook is caught and logged; in \<open>onTradeUpdate\<close> it
  skips the position update that follows the hook.
\<close>

definition onMarketData :: "'d StrategyHooks \<Rightarrow> 'd BaseStrategy \<Rightarrow> MarketData \<Rightarrow> 'd BaseStrategy" where
  "onMarketData hooks s md =
     (if bs_status s \<noteq> RUNNING then s
      else s\<lparr>bs_derived := fst (processMarketData hooks (bs_derived s) md)\<rparr>)"

definition onOrderUpdate :: "'d StrategyHooks \<Rightarrow> 'd BaseStrategy \<Rightarrow> OrderUpdate \<Rightarrow> 'd BaseStrategy" where
  "onOrderUpdate hooks s update =
     (if bs_status s \<noteq> RUNNING then s
      else s\<lparr>bs_derived := fst (processOrderUpdate hooks (bs_derived s) update)\<rparr>)"

definition onTradeUpdate :: "'d StrategyHooks \<Rightarrow> 'd BaseStrategy \<Rightarrow> TradeUpdate \<Rightarrow> 'd BaseStrategy" where
  "onTradeUpdate hooks s update =
     (if bs_status s \<noteq> RUNNING then s
      else (case processTradeUpdate hooks (bs_derived s) update of
              (d', Some what) \<Rightarrow> s\<lparr>bs_derived := d'\<rparr>
            | (d', None) \<Rightarrow> BaseStrategy_updatePosition (s\<lparr>bs_derived := d'\<rparr>) update))"

text \<open>The constructor sets \<open>status_\<close> to \<open>INITIALIZED\<close>; there are no positions yet.\<close>

definition BaseStrategy_new :: "string \<Rightarrow> 'd \<Rightarrow> 'd BaseStrategy" where
  "BaseStrategy_new name d =
     \<lparr>bs_name = name, bs_status = INITIALIZED, bs_positions = Map.empty, bs_derived = d\<rparr>"

text \<open>
  A fill, the signed volume it stands for, and hooks that count their calls, for the
  scenarios.
\<close>

definition fill :: "string \<Rightarrow> OrderSide \<Rightarrow> Price \<Rightarrow> Volume \<Rightarrow> TradeUpdate" where
  "fill symb sd px vol =
     \<lparr>TradeUpdate.orderId = [], symbol = symb, price = px, volume = vol, side = sd,
      timestamp = 0\<rparr>"

definition signed_volume :: "TradeUpdate \<Rightarrow> real" where
  "signed_volume update =
     (if TradeUpdate.side update = BUY then TradeUpdate.volume update
      else - TradeUpdate.volume update)"

definition counting_hooks :: "nat StrategyHooks" where
  "counting_hooks =
     \<lparr>processMarketData = (\<lambda>d md. (Suc d, None)),
      processOrderUpdate = (\<lambda>d update. (Suc d, None)),
      processTradeUpdate = (\<lambda>d update. (Suc d, None))\<rparr>"

definition getPosition :: "'d BaseStrategy \<Rightarrow> string \<Rightarrow> Position" where
  "getPosition s symb =
     (case bs_positions s symb of
        Some pos \<Rightarrow> pos
      | None \<Rightarrow> \<lparr>Position.symbol = symb, volume = 0, averagePrice = 0, unrealizedPnl = 0,
                  realizedPnl = 0\<rparr>)"

definition market_tick :: "string \<Rightarrow> Price \<Rightarrow> MarketData" where
  "market_tick symb px =
     \<lparr>MarketData.symbol = symb, timestamp = 0, lastPrice = px, bestBid = px, bestAsk = px,
      bidVolume = 0, askVolume = 0, bids = [], asks = []\<rparr>"

definition order_filled :: "OrderId \<Rightarrow> Price \<Rightarrow> Volume \<Rightarrow> OrderUpdate" where
  "order_filled oid px vol =
     \<lparr>OrderUpdate.orderId = oid, status = FILLED, filledPrice = px, filledVolume = vol,
      timestamp = 0, message = []\<rparr>"

section \<open>The pair-arbitrage strategy (\<open>algorithm/strategies/stat_arbitrage.hpp\<close>)\<close>

text \<open>
  Only the signal logic is embedded: \<open>checkSignals\<close> with \<open>enterPairTrade\<close>,
  \<open>exitPairTrade\<close>, \<open>calculatePositionSize\<close>, \<open>onCheckRiskLimits\<close> and \<open>hasEnoughData\<close>.
  \<open>pairStates_\<close> is a \<open>std::map\<close> that \<open>onCheckRiskLimits\<close> walks through, hence an
  association list. \<open>submitOrder\<close> of the base class goes to the execution engine and
  returns an order id or throws; it is the parameter \<open>submit\<close>. The two \<open>Order\<close> objects of
  a pair trade are default-initialised and only their volume and side are assigned;
  the parameter \<open>blank\<close> stands for such an object (empty strings, indeterminate type and
  price). The result of a member function is the strategy afterwards, the orders handed
  to \<open>submitOrder\<close> with the venue argument of each, and the exception that ended it.
\<close>

record StatArbitrageConfig =
  lookbackPeriod :: int
  entryZScore :: real
  exitZScore :: real
  positionSize :: real
  maxPositionSize :: real
  minObservations :: int
  corrThreshold :: real
  maxSpreadValue :: real
  stopLossZScore :: real




















section \<open>Properties of the ring buffer\<close>

lemma rb_inv_new: "0 < n \<Longrightarrow> rb_inv (RingBuffer_new n d)"
  by (simp add: rb_inv_def RingBuffer_new_def)

lemma rb_contents_new: "rb_contents (RingBuffer_new n d) = []"
  by (simp add: rb_contents_def RingBuffer_new_def size_rb_def)

lemma length_rb_contents: "length (rb_contents rb) = size_rb rb"
  by (simp add: rb_contents_def)

lemma size_rb_less: "rb_inv rb \<Longrightarrow> size_rb rb < rb_size rb"
  by (auto simp: rb_inv_def size_rb_def Let_def)

lemma write_as_offset:
  "rb_inv rb \<Longrightarrow> (rb_readIndex rb + size_rb rb) mod rb_size rb = rb_writeIndex rb"
  by (auto simp: rb_inv_def size_rb_def Let_def)

lemma mod_offset_inj:
  fixes r i j n :: nat
  assumes "i < n" "j < n" "(r + i) mod n = (r + j) mod n"
  shows "i = j"
proof -
  have aux: "a = b" if "a \<le> b" "b < n" "(r + a) mod n = (r + b) mod n" for a b :: nat
  proof -
    have "n dvd b - a"
      using mod_eq_dvd_iff_nat [of "r + a" "r + b" n] that by simp
    moreover have "b - a < n" using that by simp
    ultimately have "b - a = 0" by (meson dvd_imp_le not_less zero_less_iff_neq_zero)
    with that show ?thesis by simp
  qed
  show ?thesis
  proof (cases "i \<le> j")
    case True
    with assms show ?thesis by (auto intro: aux [of i j])
  next
    case False
    then have "j \<le> i" by simp
    with assms have "j = i" by (auto intro: aux [of j i])
    then show ?thesis by simp
  qed
qed

lemma isEmpty_iff: "isEmpty rb \<longleftrightarrow> size_rb rb = 0" if "rb_inv rb"
  using that by (auto simp: isEmpty_def size_rb_def rb_inv_def Let_def)

lemma isFull_iff: "isFull rb \<longleftrightarrow> size_rb rb = capacity rb" if "rb_inv rb"
  using that
  by (auto simp: isFull_def size_rb_def capacity_def rb_inv_def Let_def mod_Suc split: if_splits)

lemma rb_inv_push: "rb_inv rb \<Longrightarrow> rb_inv (snd (push rb x))"
  by (auto simp: rb_inv_def push_def Let_def)

lemma rb_inv_pop: "rb_inv rb \<Longrightarrow> rb_inv (snd (pop rb))"
  by (auto simp: rb_inv_def pop_def Let_def)

lemma push_full: "isFull rb \<Longrightarrow> push rb x = (False, rb)"
  by (simp add: push_def isFull_def Let_def)

lemma size_rb_push:
  assumes "rb_inv rb" "\<not> isFull rb"
  shows "size_rb (snd (push rb x)) = Suc (size_rb rb)"
  using assms
  by (auto simp: isFull_def size_rb_def push_def rb_inv_def Let_def mod_Suc split: if_splits)

lemma push_not_full:
  assumes "rb_inv rb" "\<not> isFull rb"
  shows "fst (push rb x) \<and> rb_contents (snd (push rb x)) = rb_contents rb @ [x]"
proof -
  let ?n = "rb_size rb" and ?r = "rb_readIndex rb" and ?w = "rb_writeIndex rb"
  let ?rb' = "snd (push rb x)"
  from assms have p: "push rb x =
      (True, rb\<lparr>rb_buffer := (rb_buffer rb)[?w := x], rb_writeIndex := (?w + 1) mod ?n\<rparr>)"
    by (simp add: push_def isFull_def Let_def)
  have sz: "size_rb ?rb' = Suc (size_rb rb)" by (rule size_rb_push [OF assms])
  have lt: "size_rb rb < ?n" by (rule size_rb_less [OF assms(1)])
  have w: "(?r + size_rb rb) mod ?n = ?w" by (rule write_as_offset [OF assms(1)])
  have old: "rb_buffer ?rb' ! ((?r + i) mod ?n) = rb_buffer rb ! ((?r + i) mod ?n)"
    if "i < size_rb rb" for i
  proof -
    have "(?r + i) mod ?n \<noteq> ?w"
    proof
      assume "(?r + i) mod ?n = ?w"
      with w have "(?r + i) mod ?n = (?r + size_rb rb) mod ?n" by simp
      with that lt have "i = size_rb rb"
        using mod_offset_inj [of i ?n "size_rb rb" ?r] by simp
      with that show False by simp
    qed
    then show ?thesis by (simp add: p)
  qed
  have new: "rb_buffer ?rb' ! ((?r + size_rb rb) mod ?n) = x"
    using assms(1) by (simp add: p w rb_inv_def)
  have rd: "rb_readIndex ?rb' = ?r" "rb_size ?rb' = ?n" by (simp_all add: p)
  have "rb_contents ?rb' =
      map (\<lambda>i. rb_buffer ?rb' ! ((?r + i) mod ?n)) [0..<size_rb rb] @
      [rb_buffer ?rb' ! ((?r + size_rb rb) mod ?n)]"
    by (simp add: rb_contents_def sz rd)
  also have "map (\<lambda>i. rb_buffer ?rb' ! ((?r + i) mod ?n)) [0..<size_rb rb] = rb_contents rb"
    unfolding rb_contents_def by (rule map_cong) (auto simp: old)
  finally show ?thesis using new by (simp add: p)
qed

lemma pop_empty: "isEmpty rb \<Longrightarrow> pop rb = (None, rb)"
  by (simp add: pop_def isEmpty_def)

lemma size_rb_pop:
  assumes "rb_inv rb" "\<not> isEmpty rb"
  shows "size_rb rb = Suc (size_rb (snd (pop rb)))"
  using assms
  by (auto simp: isEmpty_def size_rb_def pop_def rb_inv_def Let_def mod_Suc split: if_splits)

lemma pop_not_empty:
  assumes "rb_inv rb" "\<not> isEmpty rb"
  shows "\<exists>y. fst (pop rb) = Some y \<and> rb_contents rb = y # rb_contents (snd (pop rb))"
proof -
  let ?n = "rb_size rb" and ?r = "rb_readIndex rb"
  let ?rb' = "snd (pop rb)"
  from assms have p: "pop rb = (Some (rb_buffer rb ! ?r), rb\<lparr>rb_readIndex := (?r + 1) mod ?n\<rparr>)"
    by (simp add: pop_def isEmpty_def Let_def)
  have sz: "size_rb rb = Suc (size_rb ?rb')" by (rule size_rb_pop [OF assms])
  have r: "?r mod ?n = ?r" using assms(1) by (simp add: rb_inv_def)
  have shift: "(rb_readIndex ?rb' + i) mod ?n = (?r + Suc i) mod ?n" for i
    by (simp add: p mod_add_left_eq)
  have "rb_contents rb = map (\<lambda>i. rb_buffer rb ! ((?r + i) mod ?n)) (0 # map Suc [0..<size_rb ?rb'])"
    unfolding rb_contents_def sz by (simp only: upt_conv_Cons [of 0] map_Suc_upt)
  also have "\<dots> = rb_buffer rb ! ?r # rb_contents ?rb'"
    using shift by (simp add: rb_contents_def r p comp_def)
  finally have "rb_contents rb = rb_buffer rb ! ?r # rb_contents ?rb'" .
  moreover have "fst (pop rb) = Some (rb_buffer rb ! ?r)" by (simp add: p)
  ultimately show ?thesis by blast
qed

lemma rb_step_refines:
  assumes "rb_inv rb"
  shows "fst (rb_step rb c) = fst (fifo_step (capacity rb) (rb_contents rb) c) \<and>
         rb_contents (snd (rb_step rb c)) = snd (fifo_step (capacity rb) (rb_contents rb) c) \<and>
         rb_inv (snd (rb_step rb c)) \<and> capacity (snd (rb_step rb c)) = capacity rb"
proof (cases c)
  case (Push x)
  show ?thesis
  proof (cases "isFull rb")
    case True
    then have "length (rb_contents rb) = capacity rb"
      using assms by (simp add: isFull_iff length_rb_contents)
    with True assms show ?thesis
      by (simp add: Push push_full fifo_push_def)
  next
    case False
    then have "length (rb_contents rb) < capacity rb"
      using assms size_rb_less [OF assms]
      by (auto simp: isFull_iff length_rb_contents capacity_def)
    moreover have "capacity (snd (push rb x)) = capacity rb"
      by (simp add: capacity_def push_def Let_def)
    ultimately show ?thesis
      using push_not_full [OF assms False, of x] rb_inv_push [OF assms, of x]
      by (simp add: Push fifo_push_def split_beta)
  qed
next
  case Pop
  show ?thesis
  proof (cases "isEmpty rb")
    case True
    then have "rb_contents rb = []"
      using assms length_rb_contents [of rb] by (simp add: isEmpty_iff)
    with True assms show ?thesis
      by (simp add: Pop pop_empty fifo_pop_def)
  next
    case False
    moreover have "capacity (snd (pop rb)) = capacity rb"
      by (simp add: capacity_def pop_def Let_def)
    ultimately show ?thesis
      using pop_not_empty [OF assms False] rb_inv_pop [OF assms]
      by (auto simp: Pop fifo_pop_def split_beta)
  qed
next
  case IsEmpty
  with assms length_rb_contents [of rb] show ?thesis
    by (auto simp: isEmpty_iff)
next
  case IsFull
  with assms show ?thesis
    by (simp add: isFull_iff length_rb_contents)
next
  case Size
  with assms show ?thesis
    by (simp add: length_rb_contents)
qed

lemma rb_run_refines:
  "rb_inv rb \<Longrightarrow>
   fst (rb_run rb cs) = fst (fifo_run (capacity rb) (rb_contents rb) cs) \<and>
   rb_contents (snd (rb_run rb cs)) = snd (fifo_run (capacity rb) (rb_contents rb) cs)"
proof (induction cs arbitrary: rb)
  case Nil
  show ?case by simp
next
  case (Cons c cs)
  from rb_step_refines [OF Cons.prems, of c]
  have st: "fst (rb_step rb c) = fst (fifo_step (capacity rb) (rb_contents rb) c)"
    "rb_contents (snd (rb_step rb c)) = snd (fifo_step (capacity rb) (rb_contents rb) c)"
    "rb_inv (snd (rb_step rb c))" "capacity (snd (rb_step rb c)) = capacity rb"
    by simp_all
  from Cons.IH [OF st(3)] st show ?case
    by (simp add: split_beta)
qed

lemma fifo_run_conserves:
  "q @ accepted cs (fst (fifo_run cap q cs)) =
   delivered (fst (fifo_run cap q cs)) @ snd (fifo_run cap q cs)"
proof (induction cs arbitrary: q)
  case Nil
  show ?case by simp
next
  case (Cons c cs)
  show ?case
  proof (cases c)
    case (Push x)
    with Cons.IH [of "q @ [x]"] Cons.IH [of q] show ?thesis
      by (simp add: fifo_push_def split_beta)
  next
    case Pop
    with Cons.IH [of "tl q"] Cons.IH [of "[]"] show ?thesis
      by (cases q) (simp_all add: fifo_pop_def split_beta)
  qed (use Cons.IH [of q] in \<open>simp_all add: split_beta\<close>)
qed

lemma fifo_run_bounded:
  "length q \<le> cap \<Longrightarrow> length (snd (fifo_run cap q cs)) \<le> cap"
proof (induction cs arbitrary: q)
  case Nil
  then show ?case by simp
next
  case (Cons c cs)
  have "length (snd (fifo_step cap q c)) \<le> cap"
    using Cons.prems by (cases c; cases q) (auto simp: fifo_push_def fifo_pop_def)
  from Cons.IH [OF this] show ?case
    by (simp add: split_beta)
qed

text \<open>
  Claim C4. Started empty with \<open>n > 0\<close> slots, the ring buffer answers every sequence of
  \<open>push\<close>, \<open>pop\<close>, \<open>isEmpty\<close>, \<open>isFull\<close> and \<open>size\<close> calls exactly as the bounded FIFO queue
  of capacity \<open>capacity() = n - 1\<close> does: \<open>push\<close> returns \<open>false\<close> exactly when the queue
  holds \<open>capacity()\<close> items and \<open>pop\<close> reports empty exactly when it holds none. Moreover
  the items whose \<open>push\<close> returned \<open>true\<close> are, in push order, exactly the items already
  handed out by \<open>pop\<close> followed by the items still in the buffer: no accepted item is
  lost or delivered twice, no other item is ever delivered, and the order is kept.
  (Sequential calls; the memory orders of the two atomics are outside the model.)
\<close>

theorem RingBuffer_refines_bounded_fifo:
  assumes "0 < n"
  shows "fst (rb_run (RingBuffer_new n d) cs) = fst (fifo_run (capacity (RingBuffer_new n d)) [] cs)
    \<and> capacity (RingBuffer_new n d) = n - 1
    \<and> accepted cs (fst (rb_run (RingBuffer_new n d) cs)) =
        delivered (fst (rb_run (RingBuffer_new n d) cs)) @
        rb_contents (snd (rb_run (RingBuffer_new n d) cs))
    \<and> length (rb_contents (snd (rb_run (RingBuffer_new n d) cs))) \<le> n - 1"
proof -
  let ?rb = "RingBuffer_new n d"
  have inv: "rb_inv ?rb" by (rule rb_inv_new [OF assms])
  have cap: "capacity ?rb = n - 1" by (simp add: capacity_def RingBuffer_new_def)
  from rb_run_refines [OF inv, of cs]
  have out: "fst (rb_run ?rb cs) = fst (fifo_run (capacity ?rb) [] cs)"
    and fin: "rb_contents (snd (rb_run ?rb cs)) = snd (fifo_run (capacity ?rb) [] cs)"
    by (simp_all add: rb_contents_new)
  from fifo_run_conserves [of "[]" cs "capacity ?rb"]
  have "accepted cs (fst (rb_run ?rb cs)) =
      delivered (fst (rb_run ?rb cs)) @ rb_contents (snd (rb_run ?rb cs))"
    by (simp add: out fin)
  moreover from fifo_run_bounded [of "[]" "capacity ?rb" cs]
  have "length (rb_contents (snd (rb_run ?rb cs))) \<le> n - 1"
    by (simp add: fin cap)
  ultimately show ?thesis using out cap by simp
qed

theorem RingBuffer_refines_bounded_fifo_witness:
  "(0::nat) < 3 \<and>
   fst (rb_run (RingBuffer_new 3 (0::nat)) [Push 7, Push 8, Push 9, Pop, IsFull, Pop, Pop]) =
     [PushRet True, PushRet True, PushRet False, PopRet (Some 7), IsFullRet False,
      PopRet (Some 8), PopRet None]"
proof -
  have pos: "(0::nat) < 3" by simp
  have "fst (rb_run (RingBuffer_new 3 (0::nat)) [Push 7, Push 8, Push 9, Pop, IsFull, Pop, Pop]) =
      fst (fifo_run (capacity (RingBuffer_new 3 (0::nat))) []
        [Push 7, Push 8, Push 9, Pop, IsFull, Pop, Pop])"
    using RingBuffer_refines_bounded_fifo [OF pos, of "0::nat"] by (rule conjunct1)
  also have "\<dots> = [PushRet True, PushRet True, PushRet False, PopRet (Some 7), IsFullRet False,
      PopRet (Some 8), PopRet None]"
    by (simp add: capacity_def RingBuffer_new_def fifo_push_def fifo_pop_def)
  finally show ?thesis using pos by simp
qed

section \<open>Properties of the event dispatcher\<close>

lemma waitWhileFull_not_full: "\<not> isFull b \<Longrightarrow> waitWhileFull yield b = Some b"
  by (subst waitWhileFull.simps) simp

lemma waitWhileFull_full: "isFull b \<Longrightarrow> waitWhileFull yield b = waitWhileFull yield (yield b)"
  by (subst waitWhileFull.simps) simp

lemma waitWhileFull_after:
  "\<not> isFull ((yield ^^ n) b) \<Longrightarrow> \<forall>k<n. isFull ((yield ^^ k) b) \<Longrightarrow>
   waitWhileFull yield b = Some ((yield ^^ n) b)"
proof (induction n arbitrary: b)
  case 0
  then show ?case by (simp add: waitWhileFull_not_full)
next
  case (Suc n)
  from Suc.prems(2) have "isFull ((yield ^^ 0) b)" by blast
  then have full: "isFull b" by simp
  have "\<not> isFull ((yield ^^ n) (yield b))"
    using Suc.prems(1) by (simp add: funpow_swap1)
  moreover have "\<forall>k<n. isFull ((yield ^^ k) (yield b))"
  proof (intro allI impI)
    fix k assume "k < n"
    then have "Suc k < Suc n" by simp
    with Suc.prems(2) have "isFull ((yield ^^ Suc k) b)" by blast
    then show "isFull ((yield ^^ k) (yield b))" by (simp add: funpow_swap1)
  qed
  ultimately have "waitWhileFull yield (yield b) = Some ((yield ^^ n) (yield b))"
    by (rule Suc.IH)
  with full show ?case by (simp add: waitWhileFull_full funpow_swap1)
qed

lemma waitWhileFull_Some:
  assumes "waitWhileFull yield b = Some b'"
  shows "\<exists>n. b' = (yield ^^ n) b \<and> \<not> isFull ((yield ^^ n) b) \<and>
    (\<forall>k<n. isFull ((yield ^^ k) b))"
proof (rule waitWhileFull.raw_induct [where P = "\<lambda>yield b b'. \<exists>n. b' = (yield ^^ n) b \<and>
    \<not> isFull ((yield ^^ n) b) \<and> (\<forall>k<n. isFull ((yield ^^ k) b))", OF _ assms], goal_cases)
  case (1 wait yield b b')
  show ?case
  proof (cases "isFull b")
    case False
    with 1(2) have "b' = (yield ^^ 0) b" by simp
    with False show ?thesis by (intro exI [of _ 0]) simp
  next
    case True
    with 1(2) have "wait yield (yield b) = Some b'" by simp
    from 1(1) [OF this] obtain n where n: "b' = (yield ^^ n) (yield b)"
      "\<not> isFull ((yield ^^ n) (yield b))" "\<forall>k<n. isFull ((yield ^^ k) (yield b))"
      by blast
    have "\<forall>k<Suc n. isFull ((yield ^^ k) b)"
    proof (intro allI impI)
      fix k assume "k < Suc n"
      show "isFull ((yield ^^ k) b)"
      proof (cases k)
        case 0
        with True show ?thesis by simp
      next
        case (Suc j)
        with \<open>k < Suc n\<close> n(3) show ?thesis by (simp add: funpow_swap1)
      qed
    qed
    with n(1,2) show ?thesis
      by (intro exI [of _ "Suc n"]) (simp add: funpow_swap1)
  qed
qed

lemma waitWhileFull_None_iff:
  "waitWhileFull yield b = None \<longleftrightarrow> (\<forall>n. isFull ((yield ^^ n) b))"
proof
  assume none: "waitWhileFull yield b = None"
  show "\<forall>n. isFull ((yield ^^ n) b)"
  proof (rule ccontr)
    assume "\<not> (\<forall>n. isFull ((yield ^^ n) b))"
    then have ex: "\<exists>n. \<not> isFull ((yield ^^ n) b)" by simp
    define m where "m = (LEAST n. \<not> isFull ((yield ^^ n) b))"
    have "\<not> isFull ((yield ^^ m) b)" unfolding m_def using ex by (rule LeastI_ex)
    moreover have "\<forall>k<m. isFull ((yield ^^ k) b)"
      unfolding m_def using not_less_Least by blast
    ultimately have "waitWhileFull yield b = Some ((yield ^^ m) b)"
      by (rule waitWhileFull_after)
    with none show False by simp
  qed
next
  assume all: "\<forall>n. isFull ((yield ^^ n) b)"
  show "waitWhileFull yield b = None"
  proof (cases "waitWhileFull yield b")
    case None
    then show ?thesis .
  next
    case (Some b')
    from waitWhileFull_Some [OF this] all show ?thesis by blast
  qed
qed

lemma push_ok_iff: "fst (push b e) \<longleftrightarrow> \<not> isFull b"
  by (simp add: push_def isFull_def Let_def)


lemma publish_not_running: "\<not> ep_running d \<Longrightarrow> publish yield d e = Some (False, d)"
  by (simp add: publish_def)

lemma publish_after_wait:
  assumes "ep_running d" "\<not> isFull ((yield ^^ n) (ep_buffer d))"
    "\<forall>k<n. isFull ((yield ^^ k) (ep_buffer d))"
  shows "publish yield d e =
    Some (True, d\<lparr>ep_buffer := snd (push ((yield ^^ n) (ep_buffer d)) e)\<rparr>)"
proof -
  have "waitWhileFull yield (ep_buffer d) = Some ((yield ^^ n) (ep_buffer d))"
    using assms(2,3) by (rule waitWhileFull_after)
  moreover have "fst (push ((yield ^^ n) (ep_buffer d)) e)"
    using assms(2) by (simp add: push_ok_iff)
  ultimately show ?thesis
    using assms(1) by (simp add: publish_def split_beta)
qed

lemma publish_None_iff:
  "ep_running d \<Longrightarrow>
   publish yield d e = None \<longleftrightarrow> (\<forall>n. isFull ((yield ^^ n) (ep_buffer d)))"
  by (auto simp: publish_def split_beta waitWhileFull_None_iff [symmetric] split: option.splits)

lemma publish_running_result:
  assumes "ep_running d" "publish yield d e = Some (r, d')"
  shows "r"
proof -
  from assms obtain b where b: "waitWhileFull yield (ep_buffer d) = Some b"
    by (auto simp: publish_def split: option.splits)
  from waitWhileFull_Some [OF b] have "\<not> isFull b" by blast
  then have "fst (push b e)" by (simp add: push_ok_iff)
  with assms b show ?thesis by (auto simp: publish_def split_beta)
qed

lemma funpow_consumer_paused: "(consumer_paused ^^ n) b = b"
  by (induction n) (simp_all add: consumer_paused_def)

lemma publish_paused_full:
  "ep_running d \<Longrightarrow> isFull (ep_buffer d) \<Longrightarrow> publish consumer_paused d e = None"
  by (simp add: publish_None_iff funpow_consumer_paused)

lemma publish_paused_not_full:
  assumes "ep_running d" "\<not> isFull (ep_buffer d)"
  shows "publish consumer_paused d e = Some (True, d\<lparr>ep_buffer := snd (push (ep_buffer d) e)\<rparr>)"
  using publish_after_wait [where d = d and yield = consumer_paused and n = 0 and e = e] assms by simp

lemma publish_all_paused_fits:
  assumes "rb_inv (ep_buffer d)" "ep_running d"
    "size_rb (ep_buffer d) + length es \<le> capacity (ep_buffer d)"
  shows "\<exists>d'. publish_all consumer_paused d es = Some (replicate (length es) True, d') \<and>
    rb_contents (ep_buffer d') = rb_contents (ep_buffer d) @ es \<and>
    rb_inv (ep_buffer d') \<and> ep_running d' \<and>
    capacity (ep_buffer d') = capacity (ep_buffer d) \<and> ep_handlers d' = ep_handlers d"
  using assms
proof (induction es arbitrary: d)
  case Nil
  then show ?case by simp
next
  case (Cons e es)
  let ?b = "ep_buffer d"
  let ?d1 = "d\<lparr>ep_buffer := snd (push ?b e)\<rparr>"
  from Cons.prems have nf: "\<not> isFull ?b"
    by (simp add: isFull_iff)
  have p: "publish consumer_paused d e = Some (True, ?d1)"
    using Cons.prems(2) nf by (rule publish_paused_not_full)
  let ?b1 = "snd (push ?b e)"
  have inv1: "rb_inv ?b1" by (rule rb_inv_push [OF Cons.prems(1)])
  have run1: "ep_running ?d1" using Cons.prems(2) by simp
  have cap1: "capacity ?b1 = capacity ?b"
    by (simp add: capacity_def push_def Let_def)
  have sz1: "size_rb ?b1 = Suc (size_rb ?b)"
    by (rule size_rb_push [OF Cons.prems(1) nf])
  have cont1: "rb_contents ?b1 = rb_contents ?b @ [e]"
    using push_not_full [OF Cons.prems(1) nf, of e] by simp
  have fits1: "size_rb ?b1 + length es \<le> capacity ?b1"
    using Cons.prems(3) by (simp only: sz1 cap1) simp
  have "\<exists>d'. publish_all consumer_paused ?d1 es = Some (replicate (length es) True, d') \<and>
    rb_contents (ep_buffer d') = rb_contents (ep_buffer ?d1) @ es \<and>
    rb_inv (ep_buffer d') \<and> ep_running d' \<and>
    capacity (ep_buffer d') = capacity (ep_buffer ?d1) \<and> ep_handlers d' = ep_handlers ?d1"
    by (rule Cons.IH) (simp_all add: inv1 run1 fits1)
  then obtain d' where d':
    "publish_all consumer_paused ?d1 es = Some (replicate (length es) True, d')"
    "rb_contents (ep_buffer d') = rb_contents ?b1 @ es"
    "rb_inv (ep_buffer d')" "ep_running d'"
    "capacity (ep_buffer d') = capacity ?b1" "ep_handlers d' = ep_handlers d"
    by auto
  show ?case
  proof (intro exI [of _ d'] conjI)
    show "publish_all consumer_paused d (e # es) = Some (replicate (length (e # es)) True, d')"
      by (simp add: p d'(1))
    show "rb_contents (ep_buffer d') = rb_contents ?b @ e # es"
      by (simp add: d'(2) cont1)
    show "capacity (ep_buffer d') = capacity ?b" by (simp add: d'(5) cap1)
    show "ep_handlers d' = ep_handlers d" by (simp add: d'(6))
  qed (fact d'(3) d'(4))+
qed

lemma processEvent_buffer:
  "processEvent (d\<lparr>ep_buffer := b\<rparr>) event = processEvent d event"
  by (simp add: processEvent_def)

lemma processEvents_turns_delivers:
  "rb_inv (ep_buffer d) \<Longrightarrow>
   fst (processEvents_turns k d) = take k (rb_contents (ep_buffer d)) \<and>
   fst (snd (processEvents_turns k d)) =
     concat (map (processEvent d) (take k (rb_contents (ep_buffer d))))"
proof (induction k arbitrary: d)
  case 0
  show ?case by simp
next
  case (Suc k)
  show ?case
  proof (cases "isEmpty (ep_buffer d)")
    case True
    then have "rb_contents (ep_buffer d) = []"
      using Suc.prems length_rb_contents [of "ep_buffer d"] by (simp add: isEmpty_iff)
    moreover have "processEvents_turn d = (None, d)"
      using True by (simp add: processEvents_turn_def pop_empty)
    ultimately show ?thesis using Suc.IH [OF Suc.prems] by simp
  next
    case False
    from pop_not_empty [OF Suc.prems False] obtain y where y:
      "fst (pop (ep_buffer d)) = Some y"
      "rb_contents (ep_buffer d) = y # rb_contents (snd (pop (ep_buffer d)))"
      by blast
    let ?d1 = "d\<lparr>ep_buffer := snd (pop (ep_buffer d))\<rparr>"
    have t: "processEvents_turn d = (Some (y, processEvent d y), ?d1)"
      using y(1) by (cases "pop (ep_buffer d)") (simp add: processEvents_turn_def)
    have same: "processEvent ?d1 = processEvent d"
      by (rule ext) (rule processEvent_buffer)
    have "rb_inv (ep_buffer ?d1)" using rb_inv_pop [OF Suc.prems] by simp
    from Suc.IH [OF this] show ?thesis
      by (simp add: t y(2) split_beta same)
  qed
qed

lemma processEvent_two_subscribers:
  assumes "ep_handlers d etype = Some [h1, h2]"
    and "\<forall>t. t \<noteq> etype \<longrightarrow> ep_handlers d t = None"
  shows "concat (map (processEvent d) es) =
    concat (map (\<lambda>e. if Event.type e = etype then [(h1, e), (h2, e)] else []) es)"
  using assms by (induction es) (auto simp: processEvent_def)

lemma rb_contents_full_pop:
  assumes "rb_inv b" "isFull b" "0 < capacity b"
  shows "\<not> isFull (consumer_pops b) \<and> rb_inv (consumer_pops b) \<and>
    rb_contents (consumer_pops b) = tl (rb_contents b)"
proof -
  have ne: "\<not> isEmpty b"
    using assms by (simp add: isEmpty_iff isFull_iff)
  from pop_not_empty [OF assms(1) ne] obtain y where
    y: "rb_contents b = y # rb_contents (snd (pop b))" by blast
  have inv': "rb_inv (snd (pop b))" by (rule rb_inv_pop [OF assms(1)])
  have cap': "capacity (snd (pop b)) = capacity b"
    by (simp add: capacity_def pop_def Let_def)
  have "size_rb b = Suc (size_rb (snd (pop b)))" by (rule size_rb_pop [OF assms(1) ne])
  with assms have "\<not> isFull (snd (pop b))"
    by (simp add: isFull_iff [OF inv'] isFull_iff [OF assms(1)] cap')
  with inv' y show ?thesis by (simp add: consumer_pops_def)
qed

text \<open>
  Claim C5, as the code has it. Take a dispatcher built with buffer size 8 on which two
  handlers \<open>h1\<close> and \<open>h2\<close> are subscribed, in this order, for the event type \<open>etype\<close>. It
  holds 7 events, since the ring keeps one slot empty (\<open>getBufferSize() = capacity() = 7\<close>).
  With the consumer paused, the first 7 publishes return \<open>true\<close> and the 8th publish never
  returns: it spins in the wait loop, so no publish reports a full buffer. When the
  consumer then runs, its next 7 turns process the 7 accepted events in publication
  order, and the handler calls they make are, event by event in that order, the call of
  \<open>h1\<close> and then of \<open>h2\<close> for every event of type \<open>etype\<close>, and none for the others. And as
  soon as the consumer takes one event out during a \<open>yield\<close>, the waiting 8th publish is
  accepted behind the others.
\<close>

theorem dispatcher_of_size_8_holds_7:
  "capacity (ep_buffer (start (subscribe (subscribe (EventProcessorImpl_new 8) etype h1) etype h2)))
     = 7 \<and>
   (\<exists>d7. publish_all consumer_paused
            (start (subscribe (subscribe (EventProcessorImpl_new 8) etype h1) etype h2))
            [e1, e2, e3, e4, e5, e6, e7]
          = Some ([True, True, True, True, True, True, True], d7) \<and>
      publish consumer_paused d7 e8 = None \<and>
      fst (processEvents_turns 7 d7) = [e1, e2, e3, e4, e5, e6, e7] \<and>
      fst (snd (processEvents_turns 7 d7)) =
        concat (map (\<lambda>e. if Event.type e = etype then [(h1, e), (h2, e)] else [])
                    [e1, e2, e3, e4, e5, e6, e7]) \<and>
      (\<exists>d8. publish consumer_pops d7 e8 = Some (True, d8) \<and>
         rb_contents (ep_buffer d8) = [e2, e3, e4, e5, e6, e7, e8]))"
proof -
  let ?d0 = "start (subscribe (subscribe (EventProcessorImpl_new 8) etype h1) etype h2)"
  let ?es = "[e1, e2, e3, e4, e5, e6, e7]"
  have b0: "ep_buffer ?d0 = RingBuffer_new 8 Event_default" and run0: "ep_running ?d0"
    by (simp_all add: start_def subscribe_def EventProcessorImpl_new_def)
  have h0: "ep_handlers ?d0 etype = Some [h1, h2]"
    "\<forall>t. t \<noteq> etype \<longrightarrow> ep_handlers ?d0 t = None"
    by (simp_all add: start_def subscribe_def EventProcessorImpl_new_def)
  have inv0: "rb_inv (ep_buffer ?d0)" by (simp add: b0 rb_inv_new)
  have cap0: "capacity (ep_buffer ?d0) = 7"
    by (simp add: b0 capacity_def RingBuffer_new_def)
  have sz0: "size_rb (ep_buffer ?d0) = 0"
    using length_rb_contents [of "ep_buffer ?d0"] by (simp add: b0 rb_contents_new)
  have "size_rb (ep_buffer ?d0) + length ?es \<le> capacity (ep_buffer ?d0)"
    by (simp add: cap0 sz0)
  from publish_all_paused_fits [OF inv0 run0 this] obtain d7 where d7:
    "publish_all consumer_paused ?d0 ?es = Some (replicate (length ?es) True, d7)"
    "rb_contents (ep_buffer d7) = rb_contents (ep_buffer ?d0) @ ?es"
    "rb_inv (ep_buffer d7)" "ep_running d7" "capacity (ep_buffer d7) = capacity (ep_buffer ?d0)"
    "ep_handlers d7 = ep_handlers ?d0"
    by blast
  have cont7: "rb_contents (ep_buffer d7) = ?es"
    by (simp add: d7(2) b0 rb_contents_new)
  have sz7: "size_rb (ep_buffer d7) = 7"
    using length_rb_contents [of "ep_buffer d7"] by (simp add: cont7)
  have full7: "isFull (ep_buffer d7)"
    by (simp add: isFull_iff [OF d7(3)] sz7 d7(5) cap0)
  have blocked: "publish consumer_paused d7 e8 = None"
    using d7(4) full7 by (rule publish_paused_full)
  have t7: "take 7 (rb_contents (ep_buffer d7)) = ?es" by (simp add: cont7)
  have deliv: "fst (processEvents_turns 7 d7) = ?es"
    using processEvents_turns_delivers [OF d7(3), of 7] by (simp only: t7)
  have h7: "ep_handlers d7 etype = Some [h1, h2]"
    "\<forall>t. t \<noteq> etype \<longrightarrow> ep_handlers d7 t = None"
    using h0 by (simp_all only: d7(6))
  have calls: "fst (snd (processEvents_turns 7 d7)) =
      concat (map (\<lambda>e. if Event.type e = etype then [(h1, e), (h2, e)] else []) ?es)"
    using processEvents_turns_delivers [OF d7(3), of 7]
    by (simp only: t7 processEvent_two_subscribers [OF h7(1) h7(2)])
  have "0 < capacity (ep_buffer d7)" by (simp add: d7(5) cap0)
  from rb_contents_full_pop [OF d7(3) full7 this]
  have after: "\<not> isFull (consumer_pops (ep_buffer d7))" "rb_inv (consumer_pops (ep_buffer d7))"
    "rb_contents (consumer_pops (ep_buffer d7)) = [e2, e3, e4, e5, e6, e7]"
    by (simp_all add: cont7)
  let ?d8 = "d7\<lparr>ep_buffer := snd (push (consumer_pops (ep_buffer d7)) e8)\<rparr>"
  have "publish consumer_pops d7 e8 = Some (True, ?d8)"
    using publish_after_wait [where d = d7 and yield = consumer_pops and n = 1 and e = e8]
      d7(4) after(1) full7 by simp
  moreover have "rb_contents (ep_buffer ?d8) = [e2, e3, e4, e5, e6, e7, e8]"
    using push_not_full [OF after(2) after(1), of e8] by (simp add: after(3))
  ultimately have ex8: "\<exists>d8. publish consumer_pops d7 e8 = Some (True, d8) \<and>
      rb_contents (ep_buffer d8) = [e2, e3, e4, e5, e6, e7, e8]"
    by blast
  have rep: "replicate (length ?es) True = [True, True, True, True, True, True, True]"
    by simp
  from d7(1) [unfolded rep] blocked deliv calls ex8 cap0 show ?thesis by blast
qed

lemma publish_all_append:
  "publish_all yield d (es @ es') =
     (case publish_all yield d es of
        None \<Rightarrow> None
      | Some (rs, d') \<Rightarrow>
          (case publish_all yield d' es' of
             None \<Rightarrow> None
           | Some (rs', d'') \<Rightarrow> Some (rs @ rs', d'')))"
  by (induction es arbitrary: d) (auto split: option.splits)

lemma publish_all_paused_overflow:
  assumes "rb_inv (ep_buffer d)" "ep_running d"
    "size_rb (ep_buffer d) + length es = capacity (ep_buffer d)"
  shows "publish_all consumer_paused d (es @ e # es') = None"
proof -
  from assms(3) have "size_rb (ep_buffer d) + length es \<le> capacity (ep_buffer d)" by simp
  from publish_all_paused_fits [OF assms(1,2) this] obtain d' where d':
    "publish_all consumer_paused d es = Some (replicate (length es) True, d')"
    "rb_contents (ep_buffer d') = rb_contents (ep_buffer d) @ es"
    "rb_inv (ep_buffer d')" "ep_running d'" "capacity (ep_buffer d') = capacity (ep_buffer d)"
    by blast
  have "size_rb (ep_buffer d') = capacity (ep_buffer d')"
    using length_rb_contents [of "ep_buffer d'"] length_rb_contents [of "ep_buffer d"] assms(3)
    by (simp add: d'(2) d'(5))
  then have "isFull (ep_buffer d')" by (simp add: isFull_iff [OF d'(3)])
  then have "publish consumer_paused d' e = None"
    using d'(4) by (simp add: publish_paused_full)
  then show ?thesis by (simp add: publish_all_append d'(1))
qed

text \<open>
  Claim C5 as stated fails: with buffer size 8 and the consumer paused, seven publishes
  are accepted, and neither eight nor nine publishes ever all return, so there is no
  8th acceptance and no 9th \<open>Dropped(BufferFull)\<close>.
\<close>

theorem eighth_publish_never_returns:
  "map_option fst (publish_all consumer_paused
      (start (EventProcessorImpl_new 8 :: unit EventProcessorImpl)) (map tick [1..<8]))
     = Some [True, True, True, True, True, True, True] \<and>
   publish_all consumer_paused
      (start (EventProcessorImpl_new 8 :: unit EventProcessorImpl)) (map tick [1..<9]) = None \<and>
   publish_all consumer_paused
      (start (EventProcessorImpl_new 8 :: unit EventProcessorImpl)) (map tick [1..<10]) = None"
proof -
  let ?d0 = "start (EventProcessorImpl_new 8) :: unit EventProcessorImpl"
  have b0: "ep_buffer ?d0 = RingBuffer_new 8 Event_default" and run0: "ep_running ?d0"
    by (simp_all add: start_def EventProcessorImpl_new_def)
  have inv0: "rb_inv (ep_buffer ?d0)" by (simp add: b0 rb_inv_new)
  have cap0: "capacity (ep_buffer ?d0) = 7"
    by (simp add: b0 capacity_def RingBuffer_new_def)
  have sz0: "size_rb (ep_buffer ?d0) = 0"
    using length_rb_contents [of "ep_buffer ?d0"] by (simp add: b0 rb_contents_new)
  have l7: "length (map tick [1..<8]) = 7" by simp
  have "size_rb (ep_buffer ?d0) + length (map tick [1..<8]) \<le> capacity (ep_buffer ?d0)"
    by (simp only: sz0 cap0 l7)
  from publish_all_paused_fits [OF inv0 run0 this] obtain d7 where
    "publish_all consumer_paused ?d0 (map tick [1..<8]) =
       Some (replicate (length (map tick [1..<8])) True, d7)"
    by blast
  then have first7: "map_option fst (publish_all consumer_paused ?d0 (map tick [1..<8])) =
      Some [True, True, True, True, True, True, True]"
    by (simp add: numeral_eq_Suc)
  have fill: "size_rb (ep_buffer ?d0) + length (map tick [1..<8]) = capacity (ep_buffer ?d0)"
    by (simp only: sz0 cap0 l7)
  have "[1..<9] = [1..<8] @ [8::nat]" and "[1..<10] = [1..<8] @ [8::nat, 9]"
    by code_simp+
  then have s8: "map tick [1..<9] = map tick [1..<8] @ tick 8 # []"
    and s9: "map tick [1..<10] = map tick [1..<8] @ tick 8 # [tick 9]"
    by (simp_all only: map_append list.map)
  have "publish_all consumer_paused ?d0 (map tick [1..<9]) = None"
    unfolding s8 by (rule publish_all_paused_overflow [OF inv0 run0 fill])
  moreover have "publish_all consumer_paused ?d0 (map tick [1..<10]) = None"
    unfolding s9 by (rule publish_all_paused_overflow [OF inv0 run0 fill])
  ultimately show ?thesis using first7 by blast
qed

text \<open>
  Claim C6, as the code has it. \<open>publish\<close> returns \<open>false\<close> at once when the processor
  is not running, in particular for every publish after \<open>stop()\<close> has returned. While
  the processor is running, \<open>publish\<close> fails to return exactly when the buffer stays full
  over every \<open>yield\<close> (the consumer never frees a slot); when it returns, it returns
  \<open>true\<close>, never a buffer-full failure, and it has pushed the event: if the buffer is
  full over the first \<open>n\<close> yields and has a free slot after them, \<open>publish\<close> returns \<open>true\<close>
  with the event pushed onto the buffer as the other threads left it, that is, appended
  behind the events queued there. In particular, with a free slot at the call (\<open>n = 0\<close>)
  it pushes the event and returns \<open>true\<close> without waiting.
\<close>

theorem publish_returns_or_waits:
  "(\<not> ep_running d \<longrightarrow> publish yield d e = Some (False, d)) \<and>
   publish yield (stop d) e = Some (False, stop d) \<and>
   (ep_running d \<longrightarrow>
      (publish yield d e = None \<longleftrightarrow> (\<forall>n. isFull ((yield ^^ n) (ep_buffer d)))) \<and>
      (\<forall>r d'. publish yield d e = Some (r, d') \<longrightarrow> r) \<and>
      (\<not> isFull (ep_buffer d) \<longrightarrow>
         publish yield d e = Some (True, d\<lparr>ep_buffer := snd (push (ep_buffer d) e)\<rparr>)) \<and>
      (\<forall>n. \<not> isFull ((yield ^^ n) (ep_buffer d)) \<and>
           (\<forall>k<n. isFull ((yield ^^ k) (ep_buffer d))) \<longrightarrow>
           publish yield d e =
             Some (True, d\<lparr>ep_buffer := snd (push ((yield ^^ n) (ep_buffer d)) e)\<rparr>) \<and>
           (rb_inv ((yield ^^ n) (ep_buffer d)) \<longrightarrow>
              rb_contents (snd (push ((yield ^^ n) (ep_buffer d)) e)) =
              rb_contents ((yield ^^ n) (ep_buffer d)) @ [e])))"
proof -
  have stopped: "publish yield (stop d) e = Some (False, stop d)"
    by (rule publish_not_running) (simp add: stop_def)
  have idle: "publish yield d e = Some (False, d)" if "\<not> ep_running d"
    using that by (rule publish_not_running)
  have never: "publish yield d e = None \<longleftrightarrow> (\<forall>n. isFull ((yield ^^ n) (ep_buffer d)))"
    if "ep_running d"
    using that by (rule publish_None_iff)
  have accepted: "r" if "ep_running d" "publish yield d e = Some (r, d')" for r d'
    using that by (rule publish_running_result)
  have waited: "publish yield d e =
      Some (True, d\<lparr>ep_buffer := snd (push ((yield ^^ n) (ep_buffer d)) e)\<rparr>)"
    if "ep_running d" "\<not> isFull ((yield ^^ n) (ep_buffer d))"
      "\<forall>k<n. isFull ((yield ^^ k) (ep_buffer d))" for n
    using that by (rule publish_after_wait)
  have appended: "rb_contents (snd (push ((yield ^^ n) (ep_buffer d)) e)) =
      rb_contents ((yield ^^ n) (ep_buffer d)) @ [e]"
    if "\<not> isFull ((yield ^^ n) (ep_buffer d))" "rb_inv ((yield ^^ n) (ep_buffer d))" for n
    using push_not_full [OF that(2) that(1), of e] by simp
  have direct: "publish yield d e = Some (True, d\<lparr>ep_buffer := snd (push (ep_buffer d) e)\<rparr>)"
    if "ep_running d" "\<not> isFull (ep_buffer d)"
    using waited [of 0] that by simp
  from stopped idle never accepted waited appended direct show ?thesis by blast
qed

theorem publish_returns_or_waits_witness:
  "ep_running (start (EventProcessorImpl_new 2 :: unit EventProcessorImpl)) \<and>
   \<not> isFull (ep_buffer (start (EventProcessorImpl_new 2 :: unit EventProcessorImpl))) \<and>
   publish consumer_paused (start (EventProcessorImpl_new 2 :: unit EventProcessorImpl)) (tick 1) =
     Some (True, (start (EventProcessorImpl_new 2))
       \<lparr>ep_buffer := snd (push (RingBuffer_new 2 Event_default) (tick 1))\<rparr>) \<and>
   isFull (snd (push (RingBuffer_new 2 Event_default) (tick 1))) \<and>
   publish consumer_paused
     ((start (EventProcessorImpl_new 2 :: unit EventProcessorImpl))
        \<lparr>ep_buffer := snd (push (RingBuffer_new 2 Event_default) (tick 1))\<rparr>) (tick 2) = None \<and>
   \<not> isFull (consumer_pops (snd (push (RingBuffer_new 2 Event_default) (tick 1)))) \<and>
   rb_inv (consumer_pops (snd (push (RingBuffer_new 2 Event_default) (tick 1)))) \<and>
   publish consumer_pops
     ((start (EventProcessorImpl_new 2 :: unit EventProcessorImpl))
        \<lparr>ep_buffer := snd (push (RingBuffer_new 2 Event_default) (tick 1))\<rparr>) (tick 2) =
     Some (True, (start (EventProcessorImpl_new 2))
       \<lparr>ep_buffer := snd (push (consumer_pops (snd (push (RingBuffer_new 2 Event_default)
          (tick 1)))) (tick 2))\<rparr>) \<and>
   rb_contents (snd (push (consumer_pops (snd (push (RingBuffer_new 2 Event_default) (tick 1))))
     (tick 2))) = [tick 2] \<and>
   \<not> ep_running (stop (start (EventProcessorImpl_new 2 :: unit EventProcessorImpl))) \<and>
   publish consumer_paused (stop (start (EventProcessorImpl_new 2 :: unit EventProcessorImpl)))
     (tick 1) = Some (False, stop (start (EventProcessorImpl_new 2)))"
proof -
  let ?d0 = "start (EventProcessorImpl_new 2) :: unit EventProcessorImpl"
  let ?b1 = "snd (push (RingBuffer_new 2 Event_default) (tick 1))"
  let ?d1 = "?d0\<lparr>ep_buffer := ?b1\<rparr>"
  let ?b2 = "consumer_pops ?b1"
  have run: "ep_running ?d0" by (simp add: start_def EventProcessorImpl_new_def)
  have nf: "\<not> isFull (ep_buffer ?d0)"
    by (simp add: start_def EventProcessorImpl_new_def isFull_def RingBuffer_new_def)
  have b0: "ep_buffer ?d0 = RingBuffer_new 2 Event_default"
    by (simp add: start_def EventProcessorImpl_new_def)
  have stopped: "\<not> ep_running (stop ?d0)" by (simp add: stop_def)
  have run1: "ep_running ?d1" using run by simp
  have full: "isFull ?b1" by (simp add: isFull_def push_def RingBuffer_new_def Let_def)
  then have stays: "\<forall>n. isFull ((consumer_paused ^^ n) (ep_buffer ?d1))"
    by (simp add: funpow_consumer_paused)
  have inv1: "rb_inv ?b1" by (intro rb_inv_push rb_inv_new) simp
  have inv0: "rb_inv (RingBuffer_new 2 Event_default)" by (rule rb_inv_new) simp
  have nf0: "\<not> isFull (RingBuffer_new 2 Event_default)"
    by (simp add: isFull_def RingBuffer_new_def)
  have c1: "rb_contents ?b1 = [tick 1]"
    using push_not_full [OF inv0 nf0, of "tick 1"] by (simp only: rb_contents_new) simp
  have "0 < capacity ?b1" by (simp add: capacity_def push_def RingBuffer_new_def Let_def)
  from rb_contents_full_pop [OF inv1 full this] c1
  have nf2: "\<not> isFull ?b2" and inv2: "rb_inv ?b2" and c2: "rb_contents ?b2 = []"
    by simp_all
  have first_full: "\<forall>k<1. isFull ((consumer_pops ^^ k) (ep_buffer ?d1))"
    using full by simp
  have free_after: "\<not> isFull ((consumer_pops ^^ 1) (ep_buffer ?d1))"
    and inv_after: "rb_inv ((consumer_pops ^^ 1) (ep_buffer ?d1))"
    using nf2 inv2 by simp_all
  note t = publish_returns_or_waits [of ?d0 consumer_paused "tick 1"]
  from t run nf have "publish consumer_paused ?d0 (tick 1) =
      Some (True, ?d0\<lparr>ep_buffer := snd (push (ep_buffer ?d0) (tick 1))\<rparr>)"
    by blast
  then have first: "publish consumer_paused ?d0 (tick 1) = Some (True, ?d1)"
    by (simp only: b0)
  from t have last: "publish consumer_paused (stop ?d0) (tick 1) = Some (False, stop ?d0)"
    by blast
  from publish_returns_or_waits [of ?d1 consumer_paused "tick 2"] run1 stays
  have blocked: "publish consumer_paused ?d1 (tick 2) = None"
    by blast
  from publish_returns_or_waits [of ?d1 consumer_pops "tick 2"] run1 free_after first_full
    inv_after
  have "publish consumer_pops ?d1 (tick 2) =
      Some (True, ?d1\<lparr>ep_buffer := snd (push ((consumer_pops ^^ 1) (ep_buffer ?d1)) (tick 2))\<rparr>)"
    and "rb_contents (snd (push ((consumer_pops ^^ 1) (ep_buffer ?d1)) (tick 2))) =
      rb_contents ((consumer_pops ^^ 1) (ep_buffer ?d1)) @ [tick 2]"
    by blast+
  with c2 have waited: "publish consumer_pops ?d1 (tick 2) =
      Some (True, ?d0\<lparr>ep_buffer := snd (push ?b2 (tick 2))\<rparr>)"
    and queued: "rb_contents (snd (push ?b2 (tick 2))) = [tick 2]"
    by simp_all
  from run nf first full blocked nf2 inv2 waited queued stopped last show ?thesis by blast
qed

text \<open>
  Claim C6 as stated fails: on a running processor whose buffer (size 2, one event) is
  full, with the consumer paused, \<open>publish\<close> does not return at all rather than
  returning \<open>Dropped(BufferFull)\<close>.
\<close>

theorem publish_to_full_buffer_never_returns:
  "ep_running ((start (EventProcessorImpl_new 2 :: unit EventProcessorImpl))
      \<lparr>ep_buffer := snd (push (RingBuffer_new 2 Event_default) (tick 1))\<rparr>) \<and>
   isFull (snd (push (RingBuffer_new 2 Event_default) (tick 1))) \<and>
   publish consumer_paused
     ((start (EventProcessorImpl_new 2 :: unit EventProcessorImpl))
        \<lparr>ep_buffer := snd (push (RingBuffer_new 2 Event_default) (tick 1))\<rparr>) (tick 2) = None"
proof -
  have full: "isFull (snd (push (RingBuffer_new 2 Event_default) (tick 1)))"
    by (simp add: isFull_def push_def RingBuffer_new_def Let_def)
  have run: "ep_running ((start (EventProcessorImpl_new 2 :: unit EventProcessorImpl))
      \<lparr>ep_buffer := snd (push (RingBuffer_new 2 Event_default) (tick 1))\<rparr>)"
    by (simp add: start_def EventProcessorImpl_new_def)
  from run full show ?thesis
    by (simp add: publish_paused_full)
qed

text \<open>
  Claim C7 at a concrete input. Handler 1 is registered for \<open>MARKET_DATA\<close>; then
  handler 2 is subscribed and unsubscribed again. The subscriber list for
  \<open>MARKET_DATA\<close> ends up empty instead of holding handler 1 as before the two calls:
  the predicate given to \<open>remove_if\<close> is \<open>return true\<close>, although the comments beside it say
  that the handler with the matching id is the one to remove.
\<close>

theorem unsubscribe_removes_earlier_handlers:
  "ep_handlers (subscribe (EventProcessorImpl_new 8) MARKET_DATA (1::nat)) MARKET_DATA = Some [1] \<and>
   ep_handlers (subscribe (subscribe (EventProcessorImpl_new 8) MARKET_DATA (1::nat)) MARKET_DATA 2)
     MARKET_DATA = Some [1, 2] \<and>
   ep_handlers (unsubscribe (subscribe (subscribe (EventProcessorImpl_new 8) MARKET_DATA (1::nat))
     MARKET_DATA 2) MARKET_DATA ''2'') MARKET_DATA = Some []"
  by (simp add: subscribe_def unsubscribe_def EventProcessorImpl_new_def remove_if_def)

section \<open>Properties of the risk manager\<close>

lemma checkOrderRisk_disabled: "\<not> rm_enabled rm \<Longrightarrow> checkOrderRisk rm ord = (True, None)"
  by (simp add: checkOrderRisk_def)

lemma checkOrderRisk_enabled:
  assumes "rm_enabled rm" "0 \<le> Order.volume ord * Order.price ord"
  shows "checkOrderRisk rm ord =
    (first_failure (admission_checks rm ord) = None, first_failure (admission_checks rm ord))"
  using assms
  by (simp add: checkOrderRisk_def admission_checks_def first_failure_def abs_of_nonneg)

text \<open>
  Claim C2, as the code has it. Whenever the risk manager is enabled and the order's
  value \<open>volume \<cdot> price\<close> is not negative, \<open>checkOrderRisk\<close> applies the six checks in the
  listed order: order notional \<open>|volume \<cdot> price|\<close> (at the order's own price) against
  \<open>maxOrderSize\<close>, the per-symbol volume cap, the projected position volume
  \<open>|position \<plusminus> volume|\<close> against \<open>maxPositionSize\<close>, the projected leverage, the drawdown and
  the daily loss. It returns \<open>false\<close> exactly when one of them fails, and the warning it
  logs names the first failing check; the caller receives the boolean only. When the
  risk manager is disabled, \<open>checkOrderRisk\<close> returns \<open>true\<close> for every order, and the
  tracking operations (\<open>updatePosition\<close>, \<open>updateBalance\<close>, \<open>resetDailyMetrics\<close>) work as
  they do when it is enabled.
\<close>

theorem checkOrderRisk_reports_first_failure:
  "(rm_enabled rm \<and> 0 \<le> Order.volume ord * Order.price ord \<longrightarrow>
      snd (checkOrderRisk rm ord) = first_failure (admission_checks rm ord) \<and>
      fst (checkOrderRisk rm ord) = (first_failure (admission_checks rm ord) = None)) \<and>
   (\<not> rm_enabled rm \<longrightarrow> checkOrderRisk rm ord = (True, None)) \<and>
   checkOrderRisk (disable rm) ord = (True, None) \<and>
   RiskManager_updatePosition (disable rm) s v p = disable (RiskManager_updatePosition rm s v p) \<and>
   updateBalance (disable rm) b = disable (updateBalance rm b) \<and>
   resetDailyMetrics (disable rm) = disable (resetDailyMetrics rm)"
proof (intro conjI impI)
  assume "rm_enabled rm \<and> 0 \<le> Order.volume ord * Order.price ord"
  then have eq: "checkOrderRisk rm ord =
      (first_failure (admission_checks rm ord) = None, first_failure (admission_checks rm ord))"
    by (simp add: checkOrderRisk_enabled)
  show "snd (checkOrderRisk rm ord) = first_failure (admission_checks rm ord)"
    by (simp add: eq)
  show "fst (checkOrderRisk rm ord) = (first_failure (admission_checks rm ord) = None)"
    by (simp add: eq)
next
  assume "\<not> rm_enabled rm"
  then show "checkOrderRisk rm ord = (True, None)" by (rule checkOrderRisk_disabled)
next
  show "checkOrderRisk (disable rm) ord = (True, None)"
    by (simp add: checkOrderRisk_disabled disable_def)
  show "RiskManager_updatePosition (disable rm) s v p = disable (RiskManager_updatePosition rm s v p)"
    by (simp add: RiskManager_updatePosition_def disable_def)
  show "updateBalance (disable rm) b = disable (updateBalance rm b)"
    by (simp add: updateBalance_def disable_def Let_def)
  show "resetDailyMetrics (disable rm) = disable (resetDailyMetrics rm)"
    by (simp add: resetDailyMetrics_def disable_def)
qed

lemma scenario_order_size:
  "checkOrderRisk scenario_risk (limit_order ''BTC'' BUY 50000 30) = (False, Some OrderSizeExceedsLimit)"
  by (simp add: checkOrderRisk_def scenario_risk_def limit_order_def)

lemma scenario_symbol_limit:
  "checkOrderRisk scenario_risk (limit_order ''ETH'' BUY 2000 10) =
     (False, Some OrderSizeExceedsSymbolLimit)"
  by (simp add: checkOrderRisk_def scenario_risk_def limit_order_def)

lemma scenario_admitted:
  "checkOrderRisk scenario_risk (limit_order ''BTC'' BUY 50000 1) = (True, None)"
  by (simp add: checkOrderRisk_def scenario_risk_def limit_order_def calculateNewPosition_def
      calculateLeverage_def calculateDrawdown_def calculateDailyLoss_def fdiv_def)

theorem checkOrderRisk_reports_first_failure_witness:
  "rm_enabled scenario_risk \<and>
   0 \<le> Order.volume (limit_order ''ETH'' BUY 2000 10) *
       Order.price (limit_order ''ETH'' BUY 2000 10) \<and>
   snd (checkOrderRisk scenario_risk (limit_order ''ETH'' BUY 2000 10)) =
     Some OrderSizeExceedsSymbolLimit \<and>
   fst (checkOrderRisk scenario_risk (limit_order ''ETH'' BUY 2000 10)) = False \<and>
   \<not> rm_enabled (disable scenario_risk) \<and>
   checkOrderRisk (disable scenario_risk) (limit_order ''ETH'' BUY 2000 10) = (True, None)"
proof -
  let ?o = "limit_order ''ETH'' BUY 2000 10"
  have en: "rm_enabled scenario_risk" by (simp add: scenario_risk_def)
  have nn: "0 \<le> Order.volume ?o * Order.price ?o" by (simp add: limit_order_def)
  have ff: "first_failure (admission_checks scenario_risk ?o) = Some OrderSizeExceedsSymbolLimit"
    by (simp add: first_failure_def admission_checks_def scenario_risk_def limit_order_def)
  have dis: "\<not> rm_enabled (disable scenario_risk)" by (simp add: disable_def)
  note t = checkOrderRisk_reports_first_failure [of scenario_risk ?o]
  from t en nn have "snd (checkOrderRisk scenario_risk ?o) =
      first_failure (admission_checks scenario_risk ?o)"
    and "fst (checkOrderRisk scenario_risk ?o) =
      (first_failure (admission_checks scenario_risk ?o) = None)"
    by blast+
  moreover from checkOrderRisk_reports_first_failure [of "disable scenario_risk" ?o] dis
  have "checkOrderRisk (disable scenario_risk) ?o = (True, None)" by blast
  ultimately show ?thesis using en nn dis by (simp add: ff)
qed

text \<open>
  Claim C2 as stated fails. In the scenario state an order failing the first check
  and an order failing the second give the caller the same return value, \<open>false\<close>:
  the reason is logged and not returned. And a buy of 1 \<open>BTC\<close> at 50,000 is admitted
  although its projected position notional, 50,000, exceeds the position limit 1,000:
  the third check compares the position's volume, not its notional.
\<close>

theorem checkOrderRisk_returns_no_reason:
  "fst (checkOrderRisk scenario_risk (limit_order ''BTC'' BUY 50000 30)) =
     fst (checkOrderRisk scenario_risk (limit_order ''ETH'' BUY 2000 10)) \<and>
   snd (checkOrderRisk scenario_risk (limit_order ''BTC'' BUY 50000 30)) =
     Some OrderSizeExceedsLimit \<and>
   snd (checkOrderRisk scenario_risk (limit_order ''ETH'' BUY 2000 10)) =
     Some OrderSizeExceedsSymbolLimit \<and>
   checkOrderRisk scenario_risk (limit_order ''BTC'' BUY 50000 1) = (True, None) \<and>
   \<bar>calculateNewPosition scenario_risk (limit_order ''BTC'' BUY 50000 1)\<bar> *
     Order.price (limit_order ''BTC'' BUY 50000 1) > RiskLimits.maxPositionSize (rm_limits scenario_risk)"
  by (simp add: scenario_order_size scenario_symbol_limit scenario_admitted)
     (simp add: calculateNewPosition_def scenario_risk_def limit_order_def)


lemma updatePosition_positions:
  "map_of (rm_positions (RiskManager_updatePosition rm s v p)) = (map_of (rm_positions rm))(s \<mapsto> v)"
  by (simp add: RiskManager_updatePosition_def update_conv')

lemma updatePosition_averagePrices:
  "map_of (rm_averagePrices (RiskManager_updatePosition rm s v p)) =
     (map_of (rm_averagePrices rm))(s \<mapsto> p)"
  by (simp add: RiskManager_updatePosition_def update_conv')

lemma foldl_handleTradeUpdateEvent:
  "foldl (handleTradeUpdateEvent parse) rm events =
   foldl (\<lambda>rm u. RiskManager_updatePosition rm (TradeUpdate.symbol u) (TradeUpdate.volume u)
                    (TradeUpdate.price u)) rm (parsed_updates parse events)"
  by (induction events arbitrary: rm) (auto simp: handleTradeUpdateEvent_def split: sum.splits)

lemma foldl_updatePosition_last:
  "map_of (rm_positions (foldl (\<lambda>rm u. RiskManager_updatePosition rm (TradeUpdate.symbol u)
       (TradeUpdate.volume u) (TradeUpdate.price u)) rm us)) s =
   (if filter (\<lambda>u. TradeUpdate.symbol u = s) us = [] then map_of (rm_positions rm) s
    else Some (TradeUpdate.volume (last (filter (\<lambda>u. TradeUpdate.symbol u = s) us))))"
proof (induction us arbitrary: rm rule: rev_induct)
  case Nil
  show ?case by simp
next
  case (snoc u us)
  show ?case
  proof (cases "TradeUpdate.symbol u = s")
    case True
    then show ?thesis
      by (simp add: updatePosition_positions)
  next
    case False
    then show ?thesis
      using snoc.IH [of rm] by (simp add: updatePosition_positions)
  qed
qed

text \<open>
  Claim C10. \<open>updatePosition(symbol, volume, price)\<close> of the risk manager stores exactly
  \<open>volume\<close> as the position and \<open>price\<close> as the average price of \<open>symbol\<close>, replacing what
  was stored, and leaves the entries of every other symbol, the balances, the peak, the
  daily figures, the limits and the enabled flag as they were. Hence after any sequence
  of trade events handled by \<open>handleTradeUpdateEvent\<close>, the stored position of a symbol
  is the volume of the last trade update parsed for that symbol (whatever its side),
  and the initial entry if there was none.
\<close>

theorem RiskManager_updatePosition_overwrites:
  "map_of (rm_positions (RiskManager_updatePosition rm s v p)) = (map_of (rm_positions rm))(s \<mapsto> v) \<and>
   map_of (rm_averagePrices (RiskManager_updatePosition rm s v p)) =
     (map_of (rm_averagePrices rm))(s \<mapsto> p) \<and>
   rm_currentBalance (RiskManager_updatePosition rm s v p) = rm_currentBalance rm \<and>
   rm_peakBalance (RiskManager_updatePosition rm s v p) = rm_peakBalance rm \<and>
   rm_dailyStartBalance (RiskManager_updatePosition rm s v p) = rm_dailyStartBalance rm \<and>
   rm_dailyLow (RiskManager_updatePosition rm s v p) = rm_dailyLow rm \<and>
   rm_limits (RiskManager_updatePosition rm s v p) = rm_limits rm \<and>
   rm_enabled (RiskManager_updatePosition rm s v p) = rm_enabled rm \<and>
   map_of (rm_positions (foldl (handleTradeUpdateEvent parse) rm events)) s =
     (if filter (\<lambda>u. TradeUpdate.symbol u = s) (parsed_updates parse events) = []
      then map_of (rm_positions rm) s
      else Some (TradeUpdate.volume
                  (last (filter (\<lambda>u. TradeUpdate.symbol u = s) (parsed_updates parse events)))))"
proof -
  have "map_of (rm_positions (foldl (handleTradeUpdateEvent parse) rm events)) s =
     (if filter (\<lambda>u. TradeUpdate.symbol u = s) (parsed_updates parse events) = []
      then map_of (rm_positions rm) s
      else Some (TradeUpdate.volume
                  (last (filter (\<lambda>u. TradeUpdate.symbol u = s) (parsed_updates parse events)))))"
    by (simp only: foldl_handleTradeUpdateEvent foldl_updatePosition_last)
  moreover have "rm_currentBalance (RiskManager_updatePosition rm s v p) = rm_currentBalance rm"
    "rm_peakBalance (RiskManager_updatePosition rm s v p) = rm_peakBalance rm"
    "rm_dailyStartBalance (RiskManager_updatePosition rm s v p) = rm_dailyStartBalance rm"
    "rm_dailyLow (RiskManager_updatePosition rm s v p) = rm_dailyLow rm"
    "rm_limits (RiskManager_updatePosition rm s v p) = rm_limits rm"
    "rm_enabled (RiskManager_updatePosition rm s v p) = rm_enabled rm"
    by (simp_all add: RiskManager_updatePosition_def)
  ultimately show ?thesis
    using updatePosition_positions [of rm s v p] updatePosition_averagePrices [of rm s v p]
    by blast
qed

section \<open>Properties of the order router\<close>

lemma getExchange_None_submit:
  "getExchange r v = None \<Longrightarrow> submitOrder r ord v = (Inl (ExchangeNotFound v), r, [])"
  by (simp add: submitOrder_def)

lemma recordOrder_recorded:
  "or_orderBook (recordOrder r oid ord v) oid = Some ord \<and>
   (\<exists>orders. or_activeOrdersByExchange (recordOrder r oid ord v) v = Some orders \<and> oid \<in> orders)"
  by (simp add: recordOrder_def)

text \<open>
  Claim C1, as the code has it. For every order and venue name, \<open>submitOrder\<close> first looks
  the venue up: when no adapter is registered under the name it fails with
  \<open>Exchange not found\<close>, without consulting the risk manager or any adapter and without
  recording anything. For a registered venue it consults the risk manager before the
  adapter: if the risk check rejects the order, the call fails with
  \<open>Order rejected by risk manager\<close>, the adapter's \<open>submitOrder\<close> is not invoked and the
  router is unchanged; if the adapter's \<open>submitOrder\<close> returns an id, the order is
  recorded under that id in the order book and among the venue's active orders; if it
  throws, the exception propagates and the router is unchanged.
\<close>

theorem submitOrder_gates_on_venue_then_risk:
  "(getExchange r v = None \<longrightarrow> submitOrder r ord v = (Inl (ExchangeNotFound v), r, [])) \<and>
   (\<forall>exchange. getExchange r v = Some exchange \<longrightarrow>
      (\<not> fst (checkOrderRisk (or_riskManager r) ord) \<longrightarrow>
         submitOrder r ord v = (Inl RejectedByRiskManager, r, [])) \<and>
      (fst (checkOrderRisk (or_riskManager r) ord) \<longrightarrow>
         (\<forall>oid. ex_submitOrder exchange ord = Inr oid \<longrightarrow>
            submitOrder r ord v = (Inr oid, recordOrder r oid ord v, [ord]) \<and>
            or_orderBook (recordOrder r oid ord v) oid = Some ord \<and>
            (\<exists>orders. or_activeOrdersByExchange (recordOrder r oid ord v) v = Some orders \<and>
               oid \<in> orders)) \<and>
         (\<forall>what. ex_submitOrder exchange ord = Inl what \<longrightarrow>
            submitOrder r ord v = (Inl (AdapterException what), r, [ord]))))"
  by (auto simp: submitOrder_def recordOrder_def)


lemma scenario_small_admitted:
  "checkOrderRisk scenario_risk (limit_order ''BTC'' BUY 50000 (1 / 10)) = (True, None)"
  by (simp add: checkOrderRisk_def scenario_risk_def limit_order_def calculateNewPosition_def
      calculateLeverage_def calculateDrawdown_def calculateDailyLoss_def fdiv_def)

lemma scenario_router_venues:
  "getExchange scenario_router ''kraken'' = None"
  "getExchange scenario_router ''binance'' = Some (accepting_exchange ''1001'')"
  "getExchange scenario_router ''offline'' = Some (failing_exchange ''timeout'')"
  "or_riskManager scenario_router = scenario_risk"
  by (simp_all add: scenario_router_def getExchange_def registerExchange_def OrderRouter_new_def)

theorem submitOrder_gates_on_venue_then_risk_witness:
  "getExchange scenario_router ''kraken'' = None \<and>
   submitOrder scenario_router (limit_order ''BTC'' BUY 50000 (1 / 10)) ''kraken'' =
     (Inl (ExchangeNotFound ''kraken''), scenario_router, []) \<and>
   getExchange scenario_router ''binance'' = Some (accepting_exchange ''1001'') \<and>
   \<not> fst (checkOrderRisk (or_riskManager scenario_router) (limit_order ''BTC'' BUY 50000 30)) \<and>
   submitOrder scenario_router (limit_order ''BTC'' BUY 50000 30) ''binance'' =
     (Inl RejectedByRiskManager, scenario_router, []) \<and>
   fst (checkOrderRisk (or_riskManager scenario_router) (limit_order ''BTC'' BUY 50000 (1 / 10))) \<and>
   ex_submitOrder (accepting_exchange ''1001'') (limit_order ''BTC'' BUY 50000 (1 / 10)) =
     Inr ''1001'' \<and>
   fst (submitOrder scenario_router (limit_order ''BTC'' BUY 50000 (1 / 10)) ''binance'') =
     Inr ''1001'' \<and>
   or_orderBook (fst (snd (submitOrder scenario_router (limit_order ''BTC'' BUY 50000 (1 / 10))
     ''binance''))) ''1001'' = Some (limit_order ''BTC'' BUY 50000 (1 / 10)) \<and>
   getExchange scenario_router ''offline'' = Some (failing_exchange ''timeout'') \<and>
   ex_submitOrder (failing_exchange ''timeout'') (limit_order ''BTC'' BUY 50000 (1 / 10)) =
     Inl ''timeout'' \<and>
   submitOrder scenario_router (limit_order ''BTC'' BUY 50000 (1 / 10)) ''offline'' =
     (Inl (AdapterException ''timeout''), scenario_router, [limit_order ''BTC'' BUY 50000 (1 / 10)])"
proof -
  let ?small = "limit_order ''BTC'' BUY 50000 (1 / 10)" and ?big = "limit_order ''BTC'' BUY 50000 30"
  note v = scenario_router_venues
  have big: "\<not> fst (checkOrderRisk (or_riskManager scenario_router) ?big)"
    by (simp add: v scenario_order_size)
  have small: "fst (checkOrderRisk (or_riskManager scenario_router) ?small)"
    by (simp add: v scenario_small_admitted)
  have acc: "ex_submitOrder (accepting_exchange ''1001'') ?small = Inr ''1001''"
    by (simp add: accepting_exchange_def)
  have rej: "ex_submitOrder (failing_exchange ''timeout'') ?small = Inl ''timeout''"
    by (simp add: failing_exchange_def)
  from submitOrder_gates_on_venue_then_risk [of scenario_router "''kraken''" ?small] v(1)
  have 1: "submitOrder scenario_router ?small ''kraken'' =
      (Inl (ExchangeNotFound ''kraken''), scenario_router, [])"
    by blast
  from submitOrder_gates_on_venue_then_risk [of scenario_router "''binance''" ?big] v(2) big
  have 2: "submitOrder scenario_router ?big ''binance'' =
      (Inl RejectedByRiskManager, scenario_router, [])"
    by blast
  from submitOrder_gates_on_venue_then_risk [of scenario_router "''binance''" ?small] v(2) small acc
  have 3: "submitOrder scenario_router ?small ''binance'' =
      (Inr ''1001'', recordOrder scenario_router ''1001'' ?small ''binance'', [?small])"
    and 4: "or_orderBook (recordOrder scenario_router ''1001'' ?small ''binance'') ''1001'' =
      Some ?small"
    by blast+
  from submitOrder_gates_on_venue_then_risk [of scenario_router "''offline''" ?small] v(3) small rej
  have 5: "submitOrder scenario_router ?small ''offline'' =
      (Inl (AdapterException ''timeout''), scenario_router, [?small])"
    by blast
  show ?thesis
    using v(1,2,3) big small acc rej 1 2 4 5 by (simp add: 3)
qed

text \<open>
  Claim C1 as stated fails for a venue name that is not registered: the order of
  30 \<open>BTC\<close> at 50,000 is one the risk check rejects, yet \<open>submitOrder\<close> to the unknown
  venue \<open>kraken\<close> fails with \<open>Exchange not found\<close>, not with the risk rejection.
\<close>

theorem submitOrder_unknown_venue_skips_risk:
  "\<not> fst (checkOrderRisk (or_riskManager scenario_router) (limit_order ''BTC'' BUY 50000 30)) \<and>
   submitOrder scenario_router (limit_order ''BTC'' BUY 50000 30) ''kraken'' =
     (Inl (ExchangeNotFound ''kraken''), scenario_router, [])"
  by (simp add: scenario_router_venues scenario_order_size getExchange_None_submit)

section \<open>Properties of the strategy base class\<close>

text \<open>
  The volume part of the position book is right: after any fills, the volume of a
  symbol's position is what it was plus the signed volumes of the fills in that symbol.
  The averaging rule is right for a buy that adds to a long position.
\<close>

lemma updatePosition_volume:
  "Position.volume (getPosition (BaseStrategy_updatePosition s u) symb) =
   Position.volume (getPosition s symb) +
     (if TradeUpdate.symbol u = symb then signed_volume u else 0)"
  by (simp add: BaseStrategy_updatePosition_def getPosition_def signed_volume_def Let_def
      Position_default_def split: option.splits)

lemma position_volume_is_sum_of_signed_fills:
  "Position.volume (getPosition (foldl BaseStrategy_updatePosition s us) symb) =
   Position.volume (getPosition s symb) +
     sum_list (map signed_volume (filter (\<lambda>u. TradeUpdate.symbol u = symb) us))"
  by (induction us arbitrary: s) (simp_all add: updatePosition_volume)

lemma buy_into_long_averages:
  assumes "TradeUpdate.side u = BUY" "bs_positions s (TradeUpdate.symbol u) = Some pos"
    "0 < Position.volume pos" "0 < TradeUpdate.volume u"
  shows "averagePrice (getPosition (BaseStrategy_updatePosition s u) (TradeUpdate.symbol u)) =
    (averagePrice pos * \<bar>Position.volume pos\<bar> + TradeUpdate.price u * TradeUpdate.volume u) /
    (\<bar>Position.volume pos\<bar> + TradeUpdate.volume u)"
  using assms
  by (simp add: BaseStrategy_updatePosition_def getPosition_def Let_def)

text \<open>
  Claim C3 at concrete inputs. Starting flat, a buy of 0.1 at 50,000 followed by a buy
  of 0.1 at 51,000 gives volume 0.2 and average price 50,500, as the claim says. But
  the formula takes \<open>position.volume - update.volume\<close> for the volume before the fill,
  which it is for a buy only: after a buy of 1 at 100, a reducing sell of 0.5 at 120
  leaves volume 0.5 and moves the average price from 100 to 120 instead of preserving
  it; and a first sell of 1 at 100 from flat gives the average price -100.
\<close>

theorem updatePosition_average_price_on_sells:
  "Position.volume (getPosition (foldl BaseStrategy_updatePosition (BaseStrategy_new ''s'' ())
      [fill ''BTC'' BUY 50000 (1 / 10), fill ''BTC'' BUY 51000 (1 / 10)]) ''BTC'') = 2 / 10 \<and>
   averagePrice (getPosition (foldl BaseStrategy_updatePosition (BaseStrategy_new ''s'' ())
      [fill ''BTC'' BUY 50000 (1 / 10), fill ''BTC'' BUY 51000 (1 / 10)]) ''BTC'') = 50500 \<and>
   averagePrice (getPosition (foldl BaseStrategy_updatePosition (BaseStrategy_new ''s'' ())
      [fill ''BTC'' BUY 100 1]) ''BTC'') = 100 \<and>
   Position.volume (getPosition (foldl BaseStrategy_updatePosition (BaseStrategy_new ''s'' ())
      [fill ''BTC'' BUY 100 1, fill ''BTC'' SELL 120 (1 / 2)]) ''BTC'') = 1 / 2 \<and>
   averagePrice (getPosition (foldl BaseStrategy_updatePosition (BaseStrategy_new ''s'' ())
      [fill ''BTC'' BUY 100 1, fill ''BTC'' SELL 120 (1 / 2)]) ''BTC'') = 120 \<and>
   averagePrice (getPosition (foldl BaseStrategy_updatePosition (BaseStrategy_new ''s'' ())
      [fill ''BTC'' SELL 100 1]) ''BTC'') = - 100"
  by (simp add: BaseStrategy_updatePosition_def BaseStrategy_new_def getPosition_def fill_def
      Position_default_def Let_def)

text \<open>
  Claim C8. For a strategy whose status is not \<open>RUNNING\<close> (that is \<open>INITIALIZED\<close>,
  \<open>STOPPED\<close> or \<open>ERROR\<close>), each of \<open>onMarketData\<close>, \<open>onOrderUpdate\<close> and \<open>onTradeUpdate\<close> returns
  with the strategy's state unchanged: no hook has run and no position was touched.
  When the status is \<open>RUNNING\<close> the hook runs on the derived state, and \<open>onTradeUpdate\<close>
  then updates the position book unless the hook threw.
\<close>

theorem callbacks_only_while_running:
  "(bs_status s \<noteq> RUNNING \<longrightarrow>
      onMarketData hooks s md = s \<and> onOrderUpdate hooks s ou = s \<and> onTradeUpdate hooks s tu = s) \<and>
   (bs_status s = RUNNING \<longrightarrow>
      onMarketData hooks s md = s\<lparr>bs_derived := fst (processMarketData hooks (bs_derived s) md)\<rparr> \<and>
      onOrderUpdate hooks s ou = s\<lparr>bs_derived := fst (processOrderUpdate hooks (bs_derived s) ou)\<rparr> \<and>
      bs_derived (onTradeUpdate hooks s tu) = fst (processTradeUpdate hooks (bs_derived s) tu) \<and>
      (snd (processTradeUpdate hooks (bs_derived s) tu) = None \<longrightarrow>
         bs_positions (onTradeUpdate hooks s tu) =
         bs_positions (BaseStrategy_updatePosition s tu)) \<and>
      (snd (processTradeUpdate hooks (bs_derived s) tu) \<noteq> None \<longrightarrow>
         bs_positions (onTradeUpdate hooks s tu) = bs_positions s))"
  by (auto simp: onMarketData_def onOrderUpdate_def onTradeUpdate_def
      BaseStrategy_updatePosition_def Let_def split: prod.splits option.splits)

theorem callbacks_only_while_running_witness:
  "bs_status (BaseStrategy_new ''s'' (0::nat)) \<noteq> RUNNING \<and>
   onMarketData counting_hooks (BaseStrategy_new ''s'' 0) (market_tick ''BTC'' 100) =
     BaseStrategy_new ''s'' 0 \<and>
   onOrderUpdate counting_hooks (BaseStrategy_new ''s'' 0) (order_filled ''1'' 100 1) =
     BaseStrategy_new ''s'' 0 \<and>
   onTradeUpdate counting_hooks (BaseStrategy_new ''s'' 0) (fill ''BTC'' BUY 100 1) =
     BaseStrategy_new ''s'' 0 \<and>
   bs_status ((BaseStrategy_new ''s'' (0::nat))\<lparr>bs_status := RUNNING\<rparr>) = RUNNING \<and>
   bs_derived (onTradeUpdate counting_hooks ((BaseStrategy_new ''s'' 0)\<lparr>bs_status := RUNNING\<rparr>)
     (fill ''BTC'' BUY 100 1)) = 1 \<and>
   map_option Position.volume
     (bs_positions (onTradeUpdate counting_hooks ((BaseStrategy_new ''s'' 0)\<lparr>bs_status := RUNNING\<rparr>)
        (fill ''BTC'' BUY 100 1)) ''BTC'') = Some 1"
proof -
  let ?s0 = "BaseStrategy_new ''s'' (0::nat)"
  let ?s1 = "?s0\<lparr>bs_status := RUNNING\<rparr>"
  have init: "bs_status ?s0 \<noteq> RUNNING" by (simp add: BaseStrategy_new_def)
  have run: "bs_status ?s1 = RUNNING" by simp
  have ok: "snd (processTradeUpdate counting_hooks (bs_derived ?s1) (fill ''BTC'' BUY 100 1)) = None"
    by (simp add: counting_hooks_def)
  from callbacks_only_while_running [of ?s0 counting_hooks "market_tick ''BTC'' 100"
      "order_filled ''1'' 100 1" "fill ''BTC'' BUY 100 1"] init
  have a: "onMarketData counting_hooks ?s0 (market_tick ''BTC'' 100) = ?s0"
    "onOrderUpdate counting_hooks ?s0 (order_filled ''1'' 100 1) = ?s0"
    "onTradeUpdate counting_hooks ?s0 (fill ''BTC'' BUY 100 1) = ?s0"
    by blast+
  from callbacks_only_while_running [of ?s1 counting_hooks "market_tick ''BTC'' 100"
      "order_filled ''1'' 100 1" "fill ''BTC'' BUY 100 1"] run ok
  have b: "bs_derived (onTradeUpdate counting_hooks ?s1 (fill ''BTC'' BUY 100 1)) =
      fst (processTradeUpdate counting_hooks (bs_derived ?s1) (fill ''BTC'' BUY 100 1))"
    "bs_positions (onTradeUpdate counting_hooks ?s1 (fill ''BTC'' BUY 100 1)) =
      bs_positions (BaseStrategy_updatePosition ?s1 (fill ''BTC'' BUY 100 1))"
    by blast+
  have c: "fst (processTradeUpdate counting_hooks (bs_derived ?s1) (fill ''BTC'' BUY 100 1)) = 1"
    by (simp add: counting_hooks_def BaseStrategy_new_def)
  have d: "map_option Position.volume
      (bs_positions (BaseStrategy_updatePosition ?s1 (fill ''BTC'' BUY 100 1)) ''BTC'') = Some 1"
    by (simp add: BaseStrategy_updatePosition_def BaseStrategy_new_def fill_def
        Position_default_def Let_def)
  show ?thesis using init run a b c d by simp
qed

section \<open>Properties of the pair-arbitrage signals\<close>















end
